theory Spec2Isabelle
  imports Main "HOL-Library.Sublist"
begin

section \<open>Values exchanged with the backend\<close>

text \<open>
  \<^verbatim>\<open>type User = { id: string; email: string; role: string; name?: string }\<close>
\<close>

record user =
  user_id :: string
  user_email :: string
  user_role :: string
  user_name :: "string option"

text \<open>
  A parsed response body. The code reads the members \<^verbatim>\<open>accessToken\<close>,
  \<^verbatim>\<open>refreshToken\<close>, \<^verbatim>\<open>user\<close> and (as a string) \<^verbatim>\<open>error\<close>; everything else of the
  body is kept as an opaque payload. A member that is missing or \<^verbatim>\<open>null\<close> is \<open>None\<close>.
\<close>

record json =
  j_accessToken :: "string option"
  j_refreshToken :: "string option"
  j_user :: "user option"
  j_error :: "string option"
  j_payload :: string

text \<open>The object \<^verbatim>\<open>{}\<close> that \<^verbatim>\<open>res.json().catch(() => ({}))\<close> falls back to.\<close>

definition empty_json :: json where
  "empty_json = \<lparr>j_accessToken = None, j_refreshToken = None, j_user = None,
                  j_error = None, j_payload = []\<rparr>"

text \<open>
  Errors as values: every \<^verbatim>\<open>throw\<close> of the source and every rejection of a platform
  call that the source lets through.
\<close>

datatype error =
    StorageError
  | NetworkError
  | NoRefreshToken
  | Unauthorized nat json
  | RequestFailed nat json
  | LoginFailed nat json
  | RegisterFailed nat json
  | SyntaxError

text \<open>JavaScript truthiness of a \<^verbatim>\<open>string | null\<close>: \<^verbatim>\<open>null\<close> and \<^verbatim>\<open>""\<close> are falsy.\<close>

fun truthy :: "string option \<Rightarrow> bool" where
  "truthy None = False"
| "truthy (Some v) = (v \<noteq> [])"

section \<open>The process state\<close>

text \<open>
  A JavaScript string that a user types is kept as the sequence of its UTF-16 code
  units. Tokens, keys and addresses are texts of characters below 256; \<open>units\<close> gives
  the code units of such a text.
\<close>

type_synonym jstring = "nat list"

definition units :: "string \<Rightarrow> jstring" where
  "units t = map of_char t"

text \<open>
  \<^verbatim>\<open>RequestInit\<close> and the request that \<^verbatim>\<open>fetch\<close> sends; \<open>http_method\<close> is the member
  \<^verbatim>\<open>method\<close>. A JSON request body is kept as the member list of the object handed to
  \<^verbatim>\<open>JSON.stringify\<close>.
\<close>

record req_init =
  http_method :: string
  headers :: "string \<rightharpoonup> string"
  body :: "(string \<times> jstring) list option"

record request =
  url :: string
  init :: req_init

record response =
  status :: nat
  body_json :: "json option"

datatype fetch_result = Rejected | Response response

text \<open>
  The dynamic import of \<^verbatim>\<open>expo-secure-store\<close> as \<^verbatim>\<open>getSecureStore\<close> sees it: whether
  the import succeeds, what \<^verbatim>\<open>isAvailableAsync\<close> is, and whether the three core
  methods are functions.
\<close>

datatype is_available = NotAFunction | Resolves bool | Rejects

datatype secure_import = ImportRejects | Imported is_available bool

record world =
  platform_web :: bool
  api_base :: string
  secure_module :: secure_import
  secure_rejects :: bool
  secure_data :: "string \<rightharpoonup> string"
  async_rejects :: bool
  async_data :: "string \<rightharpoonup> string"
  accessTokenMem :: "string option"
  refreshTokenMem :: "string option"
  refreshInFlight :: "(error + string) option"
  log :: "request list"
  user :: "user option"
  loading :: bool

section \<open>lib/secureStorage\<close>

text \<open>AsyncStorage: a persistent string map whose calls reject while \<open>async_rejects\<close>.\<close>

definition AsyncStorage_getItem :: "string \<Rightarrow> world \<Rightarrow> (error + string option) \<times> world" where
  "AsyncStorage_getItem k s =
     (if async_rejects s then (Inl StorageError, s) else (Inr (async_data s k), s))"

definition AsyncStorage_setItem :: "string \<Rightarrow> string \<Rightarrow> world \<Rightarrow> (error + unit) \<times> world" where
  "AsyncStorage_setItem k v s =
     (if async_rejects s then (Inl StorageError, s)
      else (Inr (), s\<lparr>async_data := (async_data s)(k \<mapsto> v)\<rparr>))"

definition AsyncStorage_removeItem :: "string \<Rightarrow> world \<Rightarrow> (error + unit) \<times> world" where
  "AsyncStorage_removeItem k s =
     (if async_rejects s then (Inl StorageError, s)
      else (Inr (), s\<lparr>async_data := (async_data s)(k := None)\<rparr>))"

definition AsyncStorage_multiRemove :: "string list \<Rightarrow> world \<Rightarrow> (error + unit) \<times> world" where
  "AsyncStorage_multiRemove ks s =
     (if async_rejects s then (Inl StorageError, s)
      else (Inr (), s\<lparr>async_data := (\<lambda>k. if k \<in> set ks then None else async_data s k)\<rparr>))"

text \<open>
  The secure store's three methods. A call rejects while \<open>secure_rejects\<close>, and throws
  a TypeError when the module has no such function.
\<close>

fun core_methods :: "secure_import \<Rightarrow> bool" where
  "core_methods ImportRejects = False"
| "core_methods (Imported a c) = c"

definition secure_call_fails :: "world \<Rightarrow> bool" where
  "secure_call_fails s = (secure_rejects s \<or> \<not> core_methods (secure_module s))"

definition SecureStore_getItemAsync :: "string \<Rightarrow> world \<Rightarrow> (error + string option) \<times> world" where
  "SecureStore_getItemAsync k s =
     (if secure_call_fails s then (Inl StorageError, s) else (Inr (secure_data s k), s))"

definition SecureStore_setItemAsync :: "string \<Rightarrow> string \<Rightarrow> world \<Rightarrow> (error + unit) \<times> world" where
  "SecureStore_setItemAsync k v s =
     (if secure_call_fails s then (Inl StorageError, s)
      else (Inr (), s\<lparr>secure_data := (secure_data s)(k \<mapsto> v)\<rparr>))"

definition SecureStore_deleteItemAsync :: "string \<Rightarrow> world \<Rightarrow> (error + unit) \<times> world" where
  "SecureStore_deleteItemAsync k s =
     (if secure_call_fails s then (Inl StorageError, s)
      else (Inr (), s\<lparr>secure_data := (secure_data s)(k := None)\<rparr>))"

text \<open>
  \<^verbatim>\<open>getSecureStore\<close>: \<open>True\<close> when it returns the module, \<open>False\<close> when it returns
  \<^verbatim>\<open>null\<close> (web, a failed import, an unavailable or rejecting availability check, or
  missing core methods when there is no availability check).
\<close>

definition getSecureStore :: "world \<Rightarrow> bool" where
  "getSecureStore s =
     (if platform_web s then False
      else (case secure_module s of
              ImportRejects \<Rightarrow> False
            | Imported (Resolves ok) c \<Rightarrow> ok
            | Imported Rejects c \<Rightarrow> False
            | Imported NotAFunction c \<Rightarrow> c))"

definition getItem :: "string \<Rightarrow> world \<Rightarrow> (error + string option) \<times> world" where
  "getItem k s =
     (if platform_web s then AsyncStorage_getItem k s
      else if getSecureStore s then
        (case SecureStore_getItemAsync k s of
           (Inr v, s') \<Rightarrow> (Inr v, s')
         | (Inl e, s') \<Rightarrow> AsyncStorage_getItem k s')
      else AsyncStorage_getItem k s)"

definition setItem :: "string \<Rightarrow> string \<Rightarrow> world \<Rightarrow> (error + unit) \<times> world" where
  "setItem k v s =
     (if platform_web s then AsyncStorage_setItem k v s
      else if getSecureStore s then
        (case SecureStore_setItemAsync k v s of
           (Inr u, s') \<Rightarrow> (Inr u, s')
         | (Inl e, s') \<Rightarrow> AsyncStorage_setItem k v s')
      else AsyncStorage_setItem k v s)"

definition deleteItem :: "string \<Rightarrow> world \<Rightarrow> (error + unit) \<times> world" where
  "deleteItem k s =
     (if platform_web s then AsyncStorage_removeItem k s
      else if getSecureStore s then
        (case SecureStore_deleteItemAsync k s of
           (Inr u, s') \<Rightarrow> (Inr u, s')
         | (Inl e, s') \<Rightarrow> AsyncStorage_removeItem k s')
      else AsyncStorage_removeItem k s)"

section \<open>providers/AuthProvider: tokens\<close>

definition ACCESS_KEY :: string where
  "ACCESS_KEY = ''accessToken''"

definition REFRESH_KEY :: string where
  "REFRESH_KEY = ''refreshToken''"

definition AUTH_BASE :: "world \<Rightarrow> string" where
  "AUTH_BASE s = api_base s @ ''/api/auth''"

text \<open>
  \<^verbatim>\<open>getTokens\<close>, lines 30-34. Each of the two lines reads the store only while the
  in-memory shadow is falsy, and writes what it read into the shadow.
\<close>

definition load_access :: "world \<Rightarrow> (error + unit) \<times> world" where
  "load_access s =
     (if \<not> truthy (accessTokenMem s) then
        (case getItem ACCESS_KEY s of
           (Inl e, s1) \<Rightarrow> (Inl e, s1)
         | (Inr v, s1) \<Rightarrow> (Inr (), s1\<lparr>accessTokenMem := v\<rparr>))
      else (Inr (), s))"

definition load_refresh :: "world \<Rightarrow> (error + unit) \<times> world" where
  "load_refresh s =
     (if \<not> truthy (refreshTokenMem s) then
        (case getItem REFRESH_KEY s of
           (Inl e, s1) \<Rightarrow> (Inl e, s1)
         | (Inr v, s1) \<Rightarrow> (Inr (), s1\<lparr>refreshTokenMem := v\<rparr>))
      else (Inr (), s))"

definition getTokens :: "world \<Rightarrow> (error + string option \<times> string option) \<times> world" where
  "getTokens s =
     (case load_access s of
        (Inl e, s1) \<Rightarrow> (Inl e, s1)
      | (Inr u, s1) \<Rightarrow>
          (case load_refresh s1 of
             (Inl e, s2) \<Rightarrow> (Inl e, s2)
           | (Inr u', s2) \<Rightarrow> (Inr (accessTokenMem s2, refreshTokenMem s2), s2)))"

text \<open>
  \<^verbatim>\<open>setTokens\<close>, lines 36-45: the shadow first, then the access entry, then the refresh
  entry; a falsy value deletes the entry.
\<close>

definition persist :: "string \<Rightarrow> string option \<Rightarrow> world \<Rightarrow> (error + unit) \<times> world" where
  "persist k t s =
     (case t of
        None \<Rightarrow> deleteItem k s
      | Some v \<Rightarrow> if v \<noteq> [] then setItem k v s else deleteItem k s)"

definition setTokens :: "string option \<Rightarrow> string option \<Rightarrow> world \<Rightarrow> (error + unit) \<times> world" where
  "setTokens a r s =
     (case persist ACCESS_KEY a (s\<lparr>accessTokenMem := a, refreshTokenMem := r\<rparr>) of
        (Inl e, s1) \<Rightarrow> (Inl e, s1)
      | (Inr u, s1) \<Rightarrow> persist REFRESH_KEY r s1)"

section \<open>providers/AuthProvider: network helpers\<close>

text \<open>
  The backend is any function of the requests already sent and the request at hand.
  \<^verbatim>\<open>fetch\<close> records the request and hands back the backend's answer; \<open>Rejected\<close> is a
  rejected \<^verbatim>\<open>fetch\<close> promise (no response at all).
\<close>

type_synonym backend = "request list \<Rightarrow> request \<Rightarrow> fetch_result"

definition fetch :: "backend \<Rightarrow> request \<Rightarrow> world \<Rightarrow> fetch_result \<times> world" where
  "fetch net req s = (net (log s) req, s\<lparr>log := log s @ [req]\<rparr>)"

text \<open>\<^verbatim>\<open>res.ok\<close>, and \<^verbatim>\<open>await res.json().catch(() => ({}))\<close>.\<close>

definition ok :: "response \<Rightarrow> bool" where
  "ok rp = (200 \<le> status rp \<and> status rp \<le> 299)"

definition parsed :: "response \<Rightarrow> json" where
  "parsed rp = (case body_json rp of None \<Rightarrow> empty_json | Some j \<Rightarrow> j)"

definition json_headers :: "string \<rightharpoonup> string" where
  "json_headers = [''Content-Type'' \<mapsto> ''application/json'']"

definition refresh_request :: "string \<Rightarrow> world \<Rightarrow> request" where
  "refresh_request rt s =
     \<lparr>url = AUTH_BASE s @ ''/refresh'',
      init = \<lparr>http_method = ''POST'', headers = json_headers,
              body = Some [(''refreshToken'', units rt)]\<rparr>\<rparr>"

text \<open>
  The body of the promise created at lines 54-69, with its request already answered:
  \<open>refresh_reject\<close> is lines 62-64 and \<open>refresh_accept\<close> lines 66-68. The marker is
  \<^verbatim>\<open>null\<close> again when the body returns or throws there; where \<^verbatim>\<open>setTokens\<close> rejects
  inside it, the caller's \<^verbatim>\<open>finally\<close> (line 74) clears it.
\<close>

definition refresh_reject :: "json \<Rightarrow> world \<Rightarrow> (error + string) \<times> world" where
  "refresh_reject json s =
     (case setTokens None None s of
        (Inl e, s1) \<Rightarrow> (Inl e, s1\<lparr>refreshInFlight := None\<rparr>)
      | (Inr u, s1) \<Rightarrow> (Inl (Unauthorized 401 json), s1\<lparr>refreshInFlight := None\<rparr>))"

definition refresh_accept :: "string \<Rightarrow> string \<Rightarrow> world \<Rightarrow> (error + string) \<times> world" where
  "refresh_accept a rt s =
     (case setTokens (Some a) (Some rt) s of
        (Inl e, s1) \<Rightarrow> (Inl e, s1\<lparr>refreshInFlight := None\<rparr>)
      | (Inr u, s1) \<Rightarrow> (Inr a, s1\<lparr>refreshInFlight := None\<rparr>))"

definition refresh_settle :: "string \<Rightarrow> response \<Rightarrow> world \<Rightarrow> (error + string) \<times> world" where
  "refresh_settle rt rp s =
     (case j_accessToken (parsed rp) of
        None \<Rightarrow> refresh_reject (parsed rp) s
      | Some a \<Rightarrow>
          if \<not> ok rp \<or> a = [] then refresh_reject (parsed rp) s
          else refresh_accept a rt s)"

text \<open>
  \<^verbatim>\<open>refreshAccessToken\<close>, lines 48-76, as one task run to completion. A refresh that
  another task has in flight is in the marker as the outcome its promise settles
  with: line 52 returns that promise, so the caller gets that outcome and sends
  nothing. A rejected \<^verbatim>\<open>fetch\<close> leaves the promise body at line 55, and line 74 clears
  the marker. How several calls set, test and clear the marker among themselves is the
  subject of the section on calls side by side below, where a call that runs alone
  gives this function.
\<close>

definition refreshAccessToken :: "backend \<Rightarrow> world \<Rightarrow> (error + string) \<times> world" where
  "refreshAccessToken net s =
     (case getTokens s of
        (Inl e, s1) \<Rightarrow> (Inl e, s1)
      | (Inr (a, r), s1) \<Rightarrow>
          (case r of
             None \<Rightarrow> (Inl NoRefreshToken, s1)
           | Some rt \<Rightarrow>
               if rt = [] then (Inl NoRefreshToken, s1)
               else
                 (case refreshInFlight s1 of
                    Some p \<Rightarrow> (p, s1)
                  | None \<Rightarrow>
                      (case fetch net (refresh_request rt s1) s1 of
                         (Rejected, s2) \<Rightarrow> (Inl NetworkError, s2\<lparr>refreshInFlight := None\<rparr>)
                       | (Response rp, s2) \<Rightarrow> refresh_settle rt rp s2))))"

text \<open>
  \<^verbatim>\<open>authFetch\<close>, lines 78-106. \<open>first_request\<close> is the request of line 86 and
  \<open>retry_request\<close> the one of lines 99-102: the same request with the Authorization
  header replaced.
\<close>

definition bearer :: "string option \<Rightarrow> (string \<rightharpoonup> string)" where
  "bearer a =
     (case a of
        None \<Rightarrow> Map.empty
      | Some t \<Rightarrow> if t \<noteq> [] then [''Authorization'' \<mapsto> ''Bearer '' @ t] else Map.empty)"

definition first_request :: "string \<Rightarrow> req_init \<Rightarrow> string option \<Rightarrow> world \<Rightarrow> request" where
  "first_request path i a s =
     \<lparr>url = api_base s @ path,
      init = i\<lparr>headers := json_headers ++ headers i ++ bearer a\<rparr>\<rparr>"

definition retry_request :: "request \<Rightarrow> string \<Rightarrow> request" where
  "retry_request req newAccess =
     req\<lparr>init := (init req)\<lparr>headers :=
       (headers (init req))(''Authorization'' \<mapsto> ''Bearer '' @ newAccess)\<rparr>\<rparr>"

definition answer :: "response \<Rightarrow> error + json" where
  "answer rp = (if \<not> ok rp then Inl (RequestFailed (status rp) (parsed rp)) else Inr (parsed rp))"

definition authFetch :: "backend \<Rightarrow> string \<Rightarrow> req_init \<Rightarrow> bool \<Rightarrow> world \<Rightarrow> (error + json) \<times> world" where
  "authFetch net path i retry s =
     (case getTokens s of
        (Inl e, s1) \<Rightarrow> (Inl e, s1)
      | (Inr (a, r), s1) \<Rightarrow>
          (case fetch net (first_request path i a s1) s1 of
             (Rejected, s2) \<Rightarrow> (Inl NetworkError, s2)
           | (Response rp, s2) \<Rightarrow>
               if status rp \<noteq> 401 then (answer rp, s2)
               else if \<not> retry then (Inl (Unauthorized 401 (parsed rp)), s2)
               else
                 (case refreshAccessToken net s2 of
                    (Inl e, s3) \<Rightarrow> (Inl e, s3)
                  | (Inr newAccess, s3) \<Rightarrow>
                      (case fetch net (retry_request (first_request path i a s1) newAccess) s3 of
                         (Rejected, s4) \<Rightarrow> (Inl NetworkError, s4)
                       | (Response rp2, s4) \<Rightarrow> (answer rp2, s4)))))"

section \<open>providers/AuthProvider: calls of refreshAccessToken side by side\<close>

text \<open>
  Several calls of \<^verbatim>\<open>refreshAccessToken\<close> in one process. A call runs alone between two
  of the awaits of lines 49, 55, 60, 62 or 66, and 72, and at these points the calls
  interleave in any order. An awaited call (\<^verbatim>\<open>getTokens\<close>, \<^verbatim>\<open>fetch\<close>, \<^verbatim>\<open>res.json\<close>,
  \<^verbatim>\<open>setTokens\<close>) takes its effect on the process when it completes.

  A caller is one call of \<^verbatim>\<open>refreshAccessToken\<close>: not made yet; at line 49 with
  \<^verbatim>\<open>getTokens\<close> running; at line 49 with the refresh token that \<^verbatim>\<open>getTokens\<close> gave; having
  returned the promise \<open>p\<close> at line 52; awaiting at line 72 the promise \<open>p\<close> that it
  created at line 54; or settled, with the promise it followed, if any. A body is the
  async function of lines 54-69, which is the promise: awaiting \<^verbatim>\<open>fetch\<close> (with the
  refresh token it captured, and the answer under way), awaiting \<^verbatim>\<open>res.json\<close>, awaiting
  \<^verbatim>\<open>setTokens\<close> at line 62 or at line 66, or settled. The variable \<^verbatim>\<open>refreshInFlight\<close> is
  the field \<open>marker\<close>; a promise is known by the index of its body.
\<close>

datatype caller =
    Idle
  | Called
  | Read "string option"
  | Joined nat
  | Owner nat
  | Done "nat option" "error + string"

datatype body =
    Fetching string fetch_result
  | Reading string response
  | Clearing json
  | Saving string string
  | Settled "error + string"

record tasks =
  base :: world
  marker :: "nat option"
  bodies :: "body list"
  callers :: "caller list"

datatype action =
    Call nat
  | Tokens nat
  | Test nat
  | Fetched nat
  | Json nat
  | Stored nat
  | Resume nat

text \<open>
  The steps. \<open>call\<close> is the call itself and \<open>tokens\<close> the completion of \<^verbatim>\<open>getTokens\<close>.
  \<open>test\<close> is the resumption at line 49: lines 50 and 52, and for a clear marker lines
  54-55 (\<open>create\<close>: the body starts, sends its request and is put in the marker) and
  line 72. \<open>fetched\<close> is the completion of \<^verbatim>\<open>fetch\<close> and the start of \<^verbatim>\<open>res.json\<close>,
  \<open>json_read\<close> the completion of \<^verbatim>\<open>res.json\<close> with line 61 and the call of \<^verbatim>\<open>setTokens\<close>,
  \<open>stored_back\<close> the completion of \<^verbatim>\<open>setTokens\<close> with lines 63-64 or 67-68. \<open>resume\<close> is
  the settling of a call: for the one that awaits at line 72 with the \<^verbatim>\<open>finally\<close> of
  line 74. A step that is not enabled leaves the state as it is.
\<close>

definition call :: "nat \<Rightarrow> tasks \<Rightarrow> tasks" where
  "call i t =
     (if i < length (callers t) \<and> callers t ! i = Idle
      then t\<lparr>callers := (callers t)[i := Called]\<rparr> else t)"

definition tokens :: "nat \<Rightarrow> tasks \<Rightarrow> tasks" where
  "tokens i t =
     (if i < length (callers t) \<and> callers t ! i = Called then
        (case getTokens (base t) of
           (Inl e, w) \<Rightarrow> t\<lparr>base := w, callers := (callers t)[i := Done None (Inl e)]\<rparr>
         | (Inr (a, r), w) \<Rightarrow> t\<lparr>base := w, callers := (callers t)[i := Read r]\<rparr>)
      else t)"

definition create :: "backend \<Rightarrow> nat \<Rightarrow> string \<Rightarrow> tasks \<Rightarrow> tasks" where
  "create net i rt t =
     (case fetch net (refresh_request rt (base t)) (base t) of
        (fr, w) \<Rightarrow>
          t\<lparr>base := w, marker := Some (length (bodies t)),
            bodies := bodies t @ [Fetching rt fr],
            callers := (callers t)[i := Owner (length (bodies t))]\<rparr>)"

definition test :: "backend \<Rightarrow> nat \<Rightarrow> tasks \<Rightarrow> tasks" where
  "test net i t =
     (if i < length (callers t) then
        (case callers t ! i of
           Read r \<Rightarrow>
             (case r of
                None \<Rightarrow> t\<lparr>callers := (callers t)[i := Done None (Inl NoRefreshToken)]\<rparr>
              | Some rt \<Rightarrow>
                  if rt = [] then t\<lparr>callers := (callers t)[i := Done None (Inl NoRefreshToken)]\<rparr>
                  else
                    (case marker t of
                       Some p \<Rightarrow> t\<lparr>callers := (callers t)[i := Joined p]\<rparr>
                     | None \<Rightarrow> create net i rt t))
         | _ \<Rightarrow> t)
      else t)"

definition fetched :: "nat \<Rightarrow> tasks \<Rightarrow> tasks" where
  "fetched p t =
     (if p < length (bodies t) then
        (case bodies t ! p of
           Fetching rt fr \<Rightarrow>
             (case fr of
                Rejected \<Rightarrow> t\<lparr>bodies := (bodies t)[p := Settled (Inl NetworkError)]\<rparr>
              | Response rp \<Rightarrow> t\<lparr>bodies := (bodies t)[p := Reading rt rp]\<rparr>)
         | _ \<Rightarrow> t)
      else t)"

definition json_read :: "nat \<Rightarrow> tasks \<Rightarrow> tasks" where
  "json_read p t =
     (if p < length (bodies t) then
        (case bodies t ! p of
           Reading rt rp \<Rightarrow>
             (case j_accessToken (parsed rp) of
                None \<Rightarrow> t\<lparr>bodies := (bodies t)[p := Clearing (parsed rp)]\<rparr>
              | Some a \<Rightarrow>
                  if \<not> ok rp \<or> a = [] then t\<lparr>bodies := (bodies t)[p := Clearing (parsed rp)]\<rparr>
                  else t\<lparr>bodies := (bodies t)[p := Saving a rt]\<rparr>)
         | _ \<Rightarrow> t)
      else t)"

definition stored_back :: "nat \<Rightarrow> tasks \<Rightarrow> tasks" where
  "stored_back p t =
     (if p < length (bodies t) then
        (case bodies t ! p of
           Clearing j \<Rightarrow>
             (case setTokens None None (base t) of
                (Inl e, w) \<Rightarrow> t\<lparr>base := w, bodies := (bodies t)[p := Settled (Inl e)]\<rparr>
              | (Inr u, w) \<Rightarrow>
                  t\<lparr>base := w, marker := None,
                    bodies := (bodies t)[p := Settled (Inl (Unauthorized 401 j))]\<rparr>)
         | Saving a rt \<Rightarrow>
             (case setTokens (Some a) (Some rt) (base t) of
                (Inl e, w) \<Rightarrow> t\<lparr>base := w, bodies := (bodies t)[p := Settled (Inl e)]\<rparr>
              | (Inr u, w) \<Rightarrow>
                  t\<lparr>base := w, marker := None, bodies := (bodies t)[p := Settled (Inr a)]\<rparr>)
         | _ \<Rightarrow> t)
      else t)"

definition resume :: "nat \<Rightarrow> tasks \<Rightarrow> tasks" where
  "resume i t =
     (if i < length (callers t) then
        (case callers t ! i of
           Owner p \<Rightarrow>
             (if p < length (bodies t) then
                (case bodies t ! p of
                   Settled r \<Rightarrow> t\<lparr>marker := None, callers := (callers t)[i := Done (Some p) r]\<rparr>
                 | _ \<Rightarrow> t)
              else t)
         | Joined p \<Rightarrow>
             (if p < length (bodies t) then
                (case bodies t ! p of
                   Settled r \<Rightarrow> t\<lparr>callers := (callers t)[i := Done (Some p) r]\<rparr>
                 | _ \<Rightarrow> t)
              else t)
         | _ \<Rightarrow> t)
      else t)"

fun step :: "backend \<Rightarrow> action \<Rightarrow> tasks \<Rightarrow> tasks" where
  "step net (Call i) t = call i t"
| "step net (Tokens i) t = tokens i t"
| "step net (Test i) t = test net i t"
| "step net (Fetched p) t = fetched p t"
| "step net (Json p) t = json_read p t"
| "step net (Stored p) t = stored_back p t"
| "step net (Resume i) t = resume i t"

definition run :: "backend \<Rightarrow> action list \<Rightarrow> tasks \<Rightarrow> tasks" where
  "run net es t = fold (step net) es t"

definition start :: "nat \<Rightarrow> world \<Rightarrow> tasks" where
  "start n w = \<lparr>base = w, marker = None, bodies = [], callers = replicate n Idle\<rparr>"


section \<open>providers/AuthProvider: endpoints and provider\<close>

text \<open>
  \<^verbatim>\<open>String.prototype.trim\<close> removes the code units that are WhiteSpace or
  LineTerminator from both ends: U+0009 to U+000D, U+0020, U+00A0, U+1680, U+2000 to
  U+200A, U+2028, U+2029, U+202F, U+205F, U+3000 and U+FEFF.
\<close>

definition is_ws :: "nat \<Rightarrow> bool" where
  "is_ws u =
     (u \<in> {9, 10, 11, 12, 13, 32, 160, 5760, 8232, 8233, 8239, 8287, 12288, 65279} \<or>
      (8192 \<le> u \<and> u \<le> 8202))"

definition trim :: "jstring \<Rightarrow> jstring" where
  "trim t = rev (dropWhile is_ws (rev (dropWhile is_ws t)))"

text \<open>
  \<^verbatim>\<open>String.prototype.toLowerCase\<close> follows the Unicode case mappings, which depend on
  the context of a character and can change the length of the string. It belongs to
  the runtime, so the endpoints take it as the parameter \<open>toLowerCase\<close>.
\<close>

record login_form =
  email :: jstring
  password :: jstring

record register_form = login_form +
  name :: jstring

definition register_request ::
  "(jstring \<Rightarrow> jstring) \<Rightarrow> register_form \<Rightarrow> world \<Rightarrow> request" where
  "register_request toLowerCase d s =
     \<lparr>url = AUTH_BASE s @ ''/register'',
      init = \<lparr>http_method = ''POST'', headers = json_headers,
              body = Some [(''name'', trim (name d)),
                           (''email'', toLowerCase (trim (email d))),
                           (''password'', password d)]\<rparr>\<rparr>"

definition login_request ::
  "(jstring \<Rightarrow> jstring) \<Rightarrow> login_form \<Rightarrow> world \<Rightarrow> request" where
  "login_request toLowerCase d s =
     \<lparr>url = AUTH_BASE s @ ''/login'',
      init = \<lparr>http_method = ''POST'', headers = json_headers,
              body = Some [(''email'', toLowerCase (trim (email d))),
                           (''password'', password d)]\<rparr>\<rparr>"

definition apiRegister ::
  "(jstring \<Rightarrow> jstring) \<Rightarrow> backend \<Rightarrow> register_form \<Rightarrow> world \<Rightarrow> (error + user option) \<times> world" where
  "apiRegister toLowerCase net d s =
     (case fetch net (register_request toLowerCase d s) s of
        (Rejected, s1) \<Rightarrow> (Inl NetworkError, s1)
      | (Response rp, s1) \<Rightarrow>
          if \<not> ok rp then (Inl (RegisterFailed (status rp) (parsed rp)), s1)
          else
            (case setTokens (j_accessToken (parsed rp)) (j_refreshToken (parsed rp)) s1 of
               (Inl e, s2) \<Rightarrow> (Inl e, s2)
             | (Inr u, s2) \<Rightarrow> (Inr (j_user (parsed rp)), s2)))"

definition apiLogin ::
  "(jstring \<Rightarrow> jstring) \<Rightarrow> backend \<Rightarrow> login_form \<Rightarrow> world \<Rightarrow> (error + user option) \<times> world" where
  "apiLogin toLowerCase net d s =
     (case fetch net (login_request toLowerCase d s) s of
        (Rejected, s1) \<Rightarrow> (Inl NetworkError, s1)
      | (Response rp, s1) \<Rightarrow>
          if \<not> ok rp then (Inl (LoginFailed (status rp) (parsed rp)), s1)
          else
            (case setTokens (j_accessToken (parsed rp)) (j_refreshToken (parsed rp)) s1 of
               (Inl e, s2) \<Rightarrow> (Inl e, s2)
             | (Inr u, s2) \<Rightarrow> (Inr (j_user (parsed rp)), s2)))"

definition me_init :: req_init where
  "me_init = \<lparr>http_method = ''GET'', headers = Map.empty, body = None\<rparr>"

definition apiMe :: "backend \<Rightarrow> world \<Rightarrow> (error + user option) \<times> world" where
  "apiMe net s =
     (case authFetch net ''/api/auth/me'' me_init True s of
        (Inl e, s1) \<Rightarrow> (Inl e, s1)
      | (Inr data, s1) \<Rightarrow> (Inr (j_user data), s1))"

definition refreshProfile :: "backend \<Rightarrow> world \<Rightarrow> world" where
  "refreshProfile net s =
     (case apiMe net s of
        (Inr u, s1) \<Rightarrow> s1\<lparr>user := u\<rparr>
      | (Inl e, s1) \<Rightarrow> s1\<lparr>user := None\<rparr>)"

text \<open>The effect of lines 165-170, run once when the provider mounts.\<close>

definition bootstrap :: "backend \<Rightarrow> world \<Rightarrow> world" where
  "bootstrap net s = (refreshProfile net s)\<lparr>loading := False\<rparr>"

definition signIn ::
  "(jstring \<Rightarrow> jstring) \<Rightarrow> backend \<Rightarrow> login_form \<Rightarrow> world \<Rightarrow> (error + unit) \<times> world" where
  "signIn toLowerCase net d s =
     (case apiLogin toLowerCase net d s of
        (Inl e, s1) \<Rightarrow> (Inl e, s1)
      | (Inr u, s1) \<Rightarrow> (Inr (), s1\<lparr>user := u\<rparr>))"

definition signUp ::
  "(jstring \<Rightarrow> jstring) \<Rightarrow> backend \<Rightarrow> register_form \<Rightarrow> world \<Rightarrow> (error + unit) \<times> world" where
  "signUp toLowerCase net d s =
     (case apiRegister toLowerCase net d s of
        (Inl e, s1) \<Rightarrow> (Inl e, s1)
      | (Inr u, s1) \<Rightarrow> (Inr (), s1\<lparr>user := u\<rparr>))"

definition signOut :: "world \<Rightarrow> (error + unit) \<times> world" where
  "signOut s =
     (case setTokens None None s of
        (Inl e, s1) \<Rightarrow> (Inl e, s1)
      | (Inr u, s1) \<Rightarrow> (Inr (), s1\<lparr>user := None\<rparr>))"

definition getAccessToken :: "world \<Rightarrow> (error + string option) \<times> world" where
  "getAccessToken s =
     (case getTokens s of
        (Inl e, s1) \<Rightarrow> (Inl e, s1)
      | (Inr (a, r), s1) \<Rightarrow> (Inr a, s1))"

section \<open>lib/toolsCache\<close>

text \<open>
  The values a caller can hand to the cache: the values of JSON, and \<^verbatim>\<open>undefined\<close>,
  which JSON has no text for. \<^verbatim>\<open>JSON.stringify\<close> and \<^verbatim>\<open>JSON.parse\<close> belong to the
  runtime, so the cache takes them as parameters: \<open>parse\<close> gives \<open>None\<close> where
  \<^verbatim>\<open>JSON.parse\<close> throws a SyntaxError.
\<close>

datatype jsval =
    JUndefined
  | JNull
  | JBool bool
  | JNum int
  | JStr string
  | JArr "jsval list"
  | JObj "(string \<times> jsval) list"

definition KEY_FC :: "string \<Rightarrow> string" where
  "KEY_FC noteId = ''tools:flashcards:'' @ noteId"

definition KEY_QZ :: "string \<Rightarrow> string" where
  "KEY_QZ noteId = ''tools:quiz:'' @ noteId"

definition getFlashcards :: "(string \<Rightarrow> jsval option) \<Rightarrow> string \<Rightarrow> world \<Rightarrow> (error + jsval) \<times> world" where
  "getFlashcards parse noteId s =
     (case (case AsyncStorage_getItem (KEY_FC noteId) s of
              (Inl e, s1) \<Rightarrow> (Inl e, s1)
            | (Inr raw, s1) \<Rightarrow>
                (case raw of
                   None \<Rightarrow> (Inr JNull, s1)
                 | Some t \<Rightarrow>
                     if t = [] then (Inr JNull, s1)
                     else (case parse t of
                             None \<Rightarrow> (Inl SyntaxError, s1)
                           | Some v \<Rightarrow> (Inr v, s1)))) of
        (Inl e, s1) \<Rightarrow> (Inr JNull, s1)
      | (Inr v, s1) \<Rightarrow> (Inr v, s1))"

definition setFlashcards :: "(jsval \<Rightarrow> string) \<Rightarrow> string \<Rightarrow> jsval \<Rightarrow> world \<Rightarrow> (error + unit) \<times> world" where
  "setFlashcards stringify noteId cards s =
     (case AsyncStorage_setItem (KEY_FC noteId) (stringify cards) s of
        (Inl e, s1) \<Rightarrow> (Inr (), s1)
      | (Inr u, s1) \<Rightarrow> (Inr (), s1))"

definition getQuiz :: "(string \<Rightarrow> jsval option) \<Rightarrow> string \<Rightarrow> world \<Rightarrow> (error + jsval) \<times> world" where
  "getQuiz parse noteId s =
     (case (case AsyncStorage_getItem (KEY_QZ noteId) s of
              (Inl e, s1) \<Rightarrow> (Inl e, s1)
            | (Inr raw, s1) \<Rightarrow>
                (case raw of
                   None \<Rightarrow> (Inr JNull, s1)
                 | Some t \<Rightarrow>
                     if t = [] then (Inr JNull, s1)
                     else (case parse t of
                             None \<Rightarrow> (Inl SyntaxError, s1)
                           | Some v \<Rightarrow> (Inr v, s1)))) of
        (Inl e, s1) \<Rightarrow> (Inr JNull, s1)
      | (Inr v, s1) \<Rightarrow> (Inr v, s1))"

definition setQuiz :: "(jsval \<Rightarrow> string) \<Rightarrow> string \<Rightarrow> jsval \<Rightarrow> world \<Rightarrow> (error + unit) \<times> world" where
  "setQuiz stringify noteId quiz s =
     (case AsyncStorage_setItem (KEY_QZ noteId) (stringify quiz) s of
        (Inl e, s1) \<Rightarrow> (Inr (), s1)
      | (Inr u, s1) \<Rightarrow> (Inr (), s1))"

definition clearNoteTools :: "string \<Rightarrow> world \<Rightarrow> (error + unit) \<times> world" where
  "clearNoteTools noteId s =
     (case AsyncStorage_multiRemove [KEY_FC noteId, KEY_QZ noteId] s of
        (Inl e, s1) \<Rightarrow> (Inr (), s1)
      | (Inr u, s1) \<Rightarrow> (Inr (), s1))"

section \<open>lib/eventBus\<close>

text \<open>
  The one event of \<^verbatim>\<open>Events\<close> and its payload. A callback is known by a number (its
  identity as a function object). What a callback does to the bus while it runs is
  given by a \<open>reaction\<close>: from the invocations made so far, the callback and the
  payload to the \<^verbatim>\<open>on\<close> and \<^verbatim>\<open>off\<close> calls it makes, in order. The field \<open>calls\<close> records
  every invocation of a callback.
\<close>

datatype event = NotesChanged

record payload =
  noteId :: "string option"

datatype bus_op = On event nat | Off event nat

type_synonym reaction = "(nat \<times> payload) list \<Rightarrow> nat \<Rightarrow> payload \<Rightarrow> bus_op list"

record bus =
  listeners :: "event \<rightharpoonup> nat list"
  calls :: "(nat \<times> payload) list"

definition on :: "event \<Rightarrow> nat \<Rightarrow> bus \<Rightarrow> bus" where
  "on ev cb b =
     b\<lparr>listeners := (listeners b)(ev \<mapsto>
        (case listeners b ev of None \<Rightarrow> [] | Some arr \<Rightarrow> arr) @ [cb])\<rparr>"

text \<open>
  The function that \<^verbatim>\<open>on\<close> returns is \<open>off ev cb\<close>. In \<^verbatim>\<open>off\<close>, \<^verbatim>\<open>indexOf\<close> finds the first
  occurrence and \<^verbatim>\<open>splice(i, 1)\<close> removes it.
\<close>

definition off :: "event \<Rightarrow> nat \<Rightarrow> bus \<Rightarrow> bus" where
  "off ev cb b =
     (case listeners b ev of
        None \<Rightarrow> b
      | Some arr \<Rightarrow>
          if cb \<in> set arr then b\<lparr>listeners := (listeners b)(ev \<mapsto> remove1 cb arr)\<rparr>
          else b)"

fun run_op :: "bus_op \<Rightarrow> bus \<Rightarrow> bus" where
  "run_op (On ev cb) b = on ev cb b"
| "run_op (Off ev cb) b = off ev cb b"

text \<open>
  \<^verbatim>\<open>Array.prototype.forEach\<close> reads the length once, then for each index below it
  that the array still has, reads the element at that moment and calls the function.
  \<open>visit\<close> is one such index.
\<close>

definition visit :: "reaction \<Rightarrow> event \<Rightarrow> payload \<Rightarrow> nat \<Rightarrow> bus \<Rightarrow> bus" where
  "visit react ev p k b =
     (case listeners b ev of
        None \<Rightarrow> b
      | Some arr \<Rightarrow>
          if k < length arr then
            fold run_op (react (calls b) (arr ! k) p) (b\<lparr>calls := calls b @ [(arr ! k, p)]\<rparr>)
          else b)"

definition emit :: "reaction \<Rightarrow> event \<Rightarrow> payload \<Rightarrow> bus \<Rightarrow> bus" where
  "emit react ev p b =
     (case listeners b ev of
        None \<Rightarrow> b
      | Some arr \<Rightarrow> fold (visit react ev p) [0..<length arr] b)"

section \<open>app/(tabs)/notes: deleting a note\<close>

record Note =
  note_id :: string
  note_title :: string

text \<open>The screen's state; \<open>noteList\<close> is the state variable \<^verbatim>\<open>notes\<close>.\<close>

record notes_screen =
  auth :: world
  bus :: bus
  noteList :: "Note list"
  selectedNoteId :: "string option"
  summaryText :: string
  indexedNoteIds :: "string set"
  alerts :: "(string \<times> string) list"

definition SUMMARY_KEY :: "string \<Rightarrow> string" where
  "SUMMARY_KEY i = ''note_summary_'' @ i"

definition INDEXED_KEY :: "string \<Rightarrow> string" where
  "INDEXED_KEY i = ''note_indexed_'' @ i"

definition loadSummaryFromStorage :: "string \<Rightarrow> notes_screen \<Rightarrow> notes_screen" where
  "loadSummaryFromStorage nid st =
     (case AsyncStorage_getItem (SUMMARY_KEY nid) (auth st) of
        (Inl e, w1) \<Rightarrow> st\<lparr>auth := w1\<rparr>
      | (Inr saved, w1) \<Rightarrow>
          st\<lparr>auth := w1,
             summaryText := (case saved of None \<Rightarrow> [] | Some t \<Rightarrow> t)\<rparr>)"

definition clearIndexedFlag :: "string \<Rightarrow> notes_screen \<Rightarrow> notes_screen" where
  "clearIndexedFlag nid st =
     (case AsyncStorage_removeItem (INDEXED_KEY nid) (auth st) of
        (Inl e, w1) \<Rightarrow> st\<lparr>auth := w1\<rparr>
      | (Inr u, w1) \<Rightarrow> st\<lparr>auth := w1, indexedNoteIds := indexedNoteIds st - {nid}\<rparr>)"

definition delete_request :: "string \<Rightarrow> string \<Rightarrow> world \<Rightarrow> request" where
  "delete_request nid token s =
     \<lparr>url = api_base s @ ''/api/notes/'' @ nid,
      init = \<lparr>http_method = ''DELETE'',
              headers = [''Authorization'' \<mapsto> ''Bearer '' @ token],
              body = None\<rparr>\<rparr>"

definition delete_error :: "notes_screen \<Rightarrow> notes_screen" where
  "delete_error st = st\<lparr>alerts := alerts st @ [(''Delete error'', ''Something went wrong.'')]\<rparr>"

text \<open>
  \<^verbatim>\<open>deleteNote\<close>, lines 289-319. \<open>after_delete\<close> is lines 304-316, what follows a
  successful answer of the backend; \<open>notes0\<close> is the list the closure captured.
\<close>

definition after_delete :: "reaction \<Rightarrow> string \<Rightarrow> Note list \<Rightarrow> notes_screen \<Rightarrow> notes_screen" where
  "after_delete react nid notes0 st =
     (let st1 = st\<lparr>noteList := filter (\<lambda>n. note_id n \<noteq> nid) (noteList st)\<rparr> in
      case AsyncStorage_removeItem (SUMMARY_KEY nid) (auth st1) of
        (Inl e, w1) \<Rightarrow> delete_error (st1\<lparr>auth := w1\<rparr>)
      | (Inr u, w1) \<Rightarrow>
          (let st2 = clearIndexedFlag nid (st1\<lparr>auth := w1\<rparr>);
               st3 = st2\<lparr>bus := emit react NotesChanged \<lparr>noteId = None\<rparr> (bus st2)\<rparr>
           in if selectedNoteId st3 = Some nid then
                (case find (\<lambda>n. note_id n \<noteq> nid) notes0 of
                   Some nx \<Rightarrow>
                     loadSummaryFromStorage (note_id nx) (st3\<lparr>selectedNoteId := Some (note_id nx)\<rparr>)
                 | None \<Rightarrow> st3\<lparr>selectedNoteId := None, summaryText := []\<rparr>)
              else st3))"

definition deleteNote :: "reaction \<Rightarrow> backend \<Rightarrow> string \<Rightarrow> notes_screen \<Rightarrow> notes_screen" where
  "deleteNote react net nid st =
     (case getAccessToken (auth st) of
        (Inl e, w1) \<Rightarrow> delete_error (st\<lparr>auth := w1\<rparr>)
      | (Inr token, w1) \<Rightarrow>
          (case token of
             None \<Rightarrow> st\<lparr>auth := w1\<rparr>
           | Some tk \<Rightarrow>
               if tk = [] then st\<lparr>auth := w1\<rparr>
               else
                 (case fetch net (delete_request nid tk w1) w1 of
                    (Rejected, w2) \<Rightarrow> delete_error (st\<lparr>auth := w2\<rparr>)
                  | (Response rp, w2) \<Rightarrow>
                      if \<not> ok rp then
                        st\<lparr>auth := w2,
                           alerts := alerts st @
                             [(''Delete failed'',
                               (case j_error (parsed rp) of
                                  Some m \<Rightarrow> m
                                | None \<Rightarrow> ''Could not delete''))]\<rparr>
                      else after_delete react nid (noteList st) (st\<lparr>auth := w2\<rparr>))))"

section \<open>Predicates used in the statements\<close>

text \<open>The secure path is out of play: not selected, or its call fails.\<close>

definition secure_path_down :: "world \<Rightarrow> bool" where
  "secure_path_down s = (\<not> getSecureStore s \<or> secure_call_fails s)"

text \<open>
  The same in terms of the platform alone, without \<^verbatim>\<open>getSecureStore\<close>: the app runs
  in a browser, a call of the secure store rejects, the module cannot be imported, its
  availability check answers false or throws, or a core method is missing.
\<close>

definition secure_out :: "world \<Rightarrow> bool" where
  "secure_out s =
     (platform_web s \<or> secure_rejects s \<or>
      secure_module s \<in>
        {ImportRejects,
         Imported (Resolves False) True, Imported (Resolves False) False,
         Imported Rejects True, Imported Rejects False,
         Imported NotAFunction False, Imported (Resolves True) False})"

text \<open>
  \<open>frame s s'\<close>: everything but the two stores and the token shadow is the same in
  \<open>s'\<close> as in \<open>s\<close>. \<open>stored k s\<close> is what reading the credential store at \<open>k\<close> gives.
\<close>

definition frame :: "world \<Rightarrow> world \<Rightarrow> bool" where
  "frame s s' =
     (platform_web s' = platform_web s \<and> api_base s' = api_base s \<and>
      secure_module s' = secure_module s \<and> secure_rejects s' = secure_rejects s \<and>
      async_rejects s' = async_rejects s \<and> refreshInFlight s' = refreshInFlight s \<and>
      log s' = log s \<and> user s' = user s \<and> loading s' = loading s)"

definition stored :: "string \<Rightarrow> world \<Rightarrow> error + string option" where
  "stored k s = fst (getItem k s)"

text \<open>The profile request of \<^verbatim>\<open>apiMe\<close> is answered, and with status 401.\<close>

definition profile_unauthorized :: "backend \<Rightarrow> world \<Rightarrow> bool" where
  "profile_unauthorized net s =
     (case getTokens s of
        (Inl e, s1) \<Rightarrow> False
      | (Inr (a, r), s1) \<Rightarrow>
          (case net (log s1) (first_request ''/api/auth/me'' me_init a s1) of
             Rejected \<Rightarrow> False
           | Response rp \<Rightarrow> status rp = 401))"

text \<open>
  Letter case on code units below 256. The capitals are A to Z and U+00C0 to U+00DE
  without the multiplication sign U+00D7; the small form of a capital is 32 above it.
  \<open>same_letter u v\<close>: the two code units are equal or are the capital and the small
  form of one letter. \<open>lowers_latin1\<close> is what is known of the runtime's \<^verbatim>\<open>toLowerCase\<close>
  on strings of such code units: it replaces each capital by its small form and
  leaves the rest.
\<close>

definition is_capital :: "nat \<Rightarrow> bool" where
  "is_capital u = ((65 \<le> u \<and> u \<le> 90) \<or> (192 \<le> u \<and> u \<le> 222 \<and> u \<noteq> 215))"

definition latin1_lower :: "nat \<Rightarrow> nat" where
  "latin1_lower u = (if is_capital u then u + 32 else u)"

definition same_letter :: "nat \<Rightarrow> nat \<Rightarrow> bool" where
  "same_letter u v = (u = v \<or> (is_capital u \<and> v = u + 32) \<or> (is_capital v \<and> u = v + 32))"

definition lowers_latin1 :: "(jstring \<Rightarrow> jstring) \<Rightarrow> bool" where
  "lowers_latin1 lc = (\<forall>t. list_all (\<lambda>u. u < 256) t \<longrightarrow> lc t = map latin1_lower t)"

text \<open>The two kinds of call a callback can make on the bus.\<close>

fun is_On :: "bus_op \<Rightarrow> bool" where
  "is_On (On ev cb) = True"
| "is_On (Off ev cb) = False"

fun is_Off :: "bus_op \<Rightarrow> bool" where
  "is_Off (On ev cb) = False"
| "is_Off (Off ev cb) = True"



fun attached :: "body list \<Rightarrow> caller \<Rightarrow> bool" where
  "attached bs (Joined p) = (p < length bs)"
| "attached bs (Owner p) = (p < length bs)"
| "attached bs (Done None r) = True"
| "attached bs (Done (Some p) r) = (p < length bs \<and> bs ! p = Settled r)"
| "attached bs c = True"




section \<open>Invariants of the calls side by side\<close>

text \<open>
  \<open>extends bs bs'\<close>: the bodies \<open>bs'\<close> are those of \<open>bs\<close> some steps later, so that what
  has settled stays. \<open>sound\<close> holds in every reachable state.
\<close>

definition extends :: "body list \<Rightarrow> body list \<Rightarrow> bool" where
  "extends bs bs' =
     (length bs \<le> length bs' \<and> (\<forall>p r. p < length bs \<and> bs ! p = Settled r \<longrightarrow> bs' ! p = Settled r))"

definition sound :: "tasks \<Rightarrow> bool" where
  "sound t =
     ((\<forall>p. marker t = Some p \<longrightarrow> p < length (bodies t)) \<and>
      list_all (attached (bodies t)) (callers t))"






section \<open>Concrete states and backends\<close>


text \<open>A signed-in session in a browser, and the same with a failing AsyncStorage.\<close>

definition alice :: user where
  "alice = \<lparr>user_id = ''u1'', user_email = ''alice@example.com'', user_role = ''student'',
            user_name = Some ''Alice''\<rparr>"

definition signed_in_web :: world where
  "signed_in_web =
     \<lparr>platform_web = True, api_base = ''http://localhost:5001'',
      secure_module = ImportRejects, secure_rejects = False,
      secure_data = Map.empty, async_rejects = False,
      async_data = [''accessToken'' \<mapsto> ''a1'', ''refreshToken'' \<mapsto> ''r1''],
      accessTokenMem = Some ''a1'', refreshTokenMem = Some ''r1'', refreshInFlight = None,
      log = [], user = Some alice, loading = False\<rparr>"

definition storage_down :: world where
  "storage_down = signed_in_web\<lparr>async_rejects := True\<rparr>"

text \<open>
  A native device that signed in while its secure store was usable, so that both
  tokens are in the secure store, and whose secure store now rejects every call.
\<close>

definition locked_signed_in :: world where
  "locked_signed_in =
     \<lparr>platform_web = False, api_base = ''http://localhost:5001'',
      secure_module = Imported (Resolves True) True, secure_rejects = True,
      secure_data = [''accessToken'' \<mapsto> ''a1'', ''refreshToken'' \<mapsto> ''r1''],
      async_rejects = False, async_data = Map.empty,
      accessTokenMem = Some ''a1'', refreshTokenMem = Some ''r1'', refreshInFlight = None,
      log = [], user = Some alice, loading = False\<rparr>"

text \<open>A backend that cannot be reached: every \<^verbatim>\<open>fetch\<close> rejects.\<close>

definition offline :: backend where
  "offline h q = Rejected"

text \<open>
  A backend for which the access token \<^verbatim>\<open>a1\<close> has expired: the refresh route hands out
  \<^verbatim>\<open>a2\<close>, and every other route answers 200 with the profile to the bearer \<^verbatim>\<open>a2\<close> and
  401 to anyone else.
\<close>

definition renewing :: backend where
  "renewing h q =
     (if url q = ''http://localhost:5001/api/auth/refresh'' then
        Response \<lparr>status = 200, body_json = Some (empty_json\<lparr>j_accessToken := Some ''a2''\<rparr>)\<rparr>
      else if headers (init q) ''Authorization'' = Some ''Bearer a2'' then
        Response \<lparr>status = 200, body_json = Some (empty_json\<lparr>j_user := Some alice\<rparr>)\<rparr>
      else Response \<lparr>status = 401, body_json = None\<rparr>)"

text \<open>A backend that answers every request with 401 and no body.\<close>

definition denying :: backend where
  "denying h q = Response \<lparr>status = 401, body_json = None\<rparr>"

text \<open>
  The process right after launch in a browser: nothing in memory, no access token in
  the store, a refresh token in the store.
\<close>

definition cold_start :: world where
  "cold_start =
     \<lparr>platform_web = True, api_base = ''http://localhost:5001'',
      secure_module = ImportRejects, secure_rejects = False,
      secure_data = Map.empty, async_rejects = False,
      async_data = [''refreshToken'' \<mapsto> ''r1''],
      accessTokenMem = None, refreshTokenMem = None, refreshInFlight = None,
      log = [], user = None, loading = True\<rparr>"


definition reissuing :: backend where
  "reissuing h q =
     Response \<lparr>status = 200,
               body_json = Some (empty_json\<lparr>j_accessToken := Some ''a2'',
                                            j_refreshToken := Some ''r2''\<rparr>)\<rparr>"

definition fresh_install :: world where
  "fresh_install = cold_start\<lparr>async_data := Map.empty\<rparr>"

text \<open>
  Schedules. \<open>alone\<close>: one call from its start to its end. \<open>together\<close>: three calls
  that all pass the marker test before anything else happens, and \<open>finish\<close>: the one
  refresh and the three calls settle. \<open>staggered\<close>: call 0 starts a refresh; the tokens
  of call 1 arrive only when that refresh stores its result, so that call 1 tests the
  marker after line 67 has cleared it and starts a second refresh; call 0 then resumes
  at line 72 and its \<^verbatim>\<open>finally\<close> clears the marker of the second refresh; call 2 starts
  while the second refresh is in flight, finds the marker clear and starts a third.
\<close>

definition alone :: "action list" where
  "alone = [Call 0, Tokens 0, Test 0, Fetched 0, Json 0, Stored 0, Resume 0]"

definition together :: "action list" where
  "together = [Call 0, Call 1, Call 2, Tokens 1, Tokens 0, Tokens 2, Test 1, Test 0, Test 2]"

definition finish :: "action list" where
  "finish = [Fetched 0, Json 0, Stored 0, Resume 1, Resume 0, Resume 2]"

definition staggered :: "action list" where
  "staggered =
     [Call 0, Call 1, Tokens 0, Test 0, Fetched 0, Json 0, Tokens 1, Stored 0,
      Test 1, Resume 0, Call 2, Tokens 2, Test 2,
      Fetched 1, Json 1, Stored 1, Fetched 2, Json 2, Stored 2, Resume 1, Resume 2]"

text \<open>
  \<^verbatim>\<open>toLowerCase\<close> as ECMAScript defines it on strings made of code units below 256 and
  the Greek sigmas \<^verbatim>\<open>U+03A3\<close> (capital, 931), \<^verbatim>\<open>U+03C3\<close> (small, 963) and \<^verbatim>\<open>U+03C2\<close> (small
  final, 962). A capital sigma becomes the final sigma when a cased letter precedes it
  and none follows it, case-ignorable characters skipped on both sides (the condition
  Final_Sigma of the Unicode standard), and the small sigma otherwise.
\<close>

definition is_cased :: "nat \<Rightarrow> bool" where
  "is_cased u =
     ((65 \<le> u \<and> u \<le> 90) \<or> (97 \<le> u \<and> u \<le> 122) \<or> u \<in> {170, 181, 186} \<or>
      (192 \<le> u \<and> u \<le> 255 \<and> u \<noteq> 215 \<and> u \<noteq> 247) \<or> u \<in> {931, 962, 963})"

definition is_case_ignorable :: "nat \<Rightarrow> bool" where
  "is_case_ignorable u = (u \<in> {39, 46, 58, 94, 96, 168, 173, 175, 180, 183, 184})"

fun cased_follows :: "jstring \<Rightarrow> bool" where
  "cased_follows [] = False"
| "cased_follows (u # t) = (if is_case_ignorable u then cased_follows t else is_cased u)"

fun lower_from :: "bool \<Rightarrow> jstring \<Rightarrow> jstring" where
  "lower_from p [] = []"
| "lower_from p (u # t) =
     (if u = 931 then (if p \<and> \<not> cased_follows t then 962 else 963) else latin1_lower u) #
     lower_from (if is_case_ignorable u then p else is_cased u) t"

definition sigma_toLowerCase :: "jstring \<Rightarrow> jstring" where
  "sigma_toLowerCase t = lower_from False t"

text \<open>
  \<^verbatim>\<open>JSON.stringify\<close> on six values and \<^verbatim>\<open>JSON.parse\<close> on five texts, as the runtime
  computes them there (an \<^verbatim>\<open>undefined\<close> array element is written as \<^verbatim>\<open>null\<close>); the values
  and texts not listed stand for nothing. Then a cache whose quiz entry does not
  parse.
\<close>

fun demo_stringify :: "jsval \<Rightarrow> string" where
  "demo_stringify JNull = ''null''"
| "demo_stringify (JBool True) = ''true''"
| "demo_stringify (JBool False) = ''false''"
| "demo_stringify (JArr [JUndefined]) = ''[null]''"
| "demo_stringify (JArr [JNull]) = ''[null]''"
| "demo_stringify v = ''[]''"

definition demo_parse :: "string \<Rightarrow> jsval option" where
  "demo_parse t =
     (if t = ''null'' then Some JNull
      else if t = ''true'' then Some (JBool True)
      else if t = ''false'' then Some (JBool False)
      else if t = ''[]'' then Some (JArr [])
      else if t = ''[null]'' then Some (JArr [JNull])
      else None)"

definition corrupt_cache :: world where
  "corrupt_cache = signed_in_web\<lparr>async_data := [''tools:quiz:n1'' \<mapsto> ''{bad'']\<rparr>"

text \<open>
  A bus with two callbacks; a reaction in which every callback unsubscribes itself when
  called, and one in which callback 1 subscribes callback 3 when called.
\<close>

definition two_listeners :: bus where
  "two_listeners = \<lparr>listeners = [NotesChanged \<mapsto> [1, 2]], calls = []\<rparr>"

definition self_removing :: reaction where
  "self_removing l h p = [Off NotesChanged h]"

definition subscribing :: reaction where
  "subscribing l h p = (if h = 1 then [On NotesChanged 3] else [])"

definition abc :: payload where
  "abc = \<lparr>noteId = Some ''abc''\<rparr>"

text \<open>
  A notes screen showing one note whose summary, indexed flag, flashcards and quiz are
  in AsyncStorage, with one subscriber on the bus; callbacks that leave the bus alone;
  a backend that answers 200 to everything.
\<close>

definition quiet :: reaction where
  "quiet l h p = []"

definition accepting :: backend where
  "accepting h q = Response \<lparr>status = 200, body_json = Some empty_json\<rparr>"

definition notes_demo :: notes_screen where
  "notes_demo =
     \<lparr>auth = signed_in_web\<lparr>async_data :=
         [''accessToken'' \<mapsto> ''a1'', ''refreshToken'' \<mapsto> ''r1'',
          ''note_summary_n1'' \<mapsto> ''summary'', ''note_indexed_n1'' \<mapsto> ''true'',
          ''tools:flashcards:n1'' \<mapsto> ''[1]'', ''tools:quiz:n1'' \<mapsto> ''[2]'']\<rparr>,
      bus = \<lparr>listeners = [NotesChanged \<mapsto> [7]], calls = []\<rparr>,
      noteList = [\<lparr>note_id = ''n1'', note_title = ''Lecture 1''\<rparr>],
      selectedNoteId = Some ''n1'', summaryText = ''summary'',
      indexedNoteIds = {''n1''}, alerts = []\<rparr>"

section \<open>Credential store: fallback and idempotence\<close>

lemma getItem_state: "snd (getItem k s) = s"
  by (simp add: getItem_def AsyncStorage_getItem_def SecureStore_getItemAsync_def)







lemma deleteItem_error:
  "fst (deleteItem k s) = Inl e \<Longrightarrow> async_rejects s \<and> secure_path_down s"
  by (auto simp: deleteItem_def AsyncStorage_removeItem_def SecureStore_deleteItemAsync_def
      secure_path_down_def getSecureStore_def split: if_splits)

section \<open>Storage operations in closed form\<close>

lemma frame_refl: "frame s s"
  by (simp add: frame_def)

lemma frame_trans: "frame s s1 \<Longrightarrow> frame s1 s2 \<Longrightarrow> frame s s2"
  by (simp add: frame_def)

lemma frame_down: "frame s s' \<Longrightarrow> secure_path_down s' = secure_path_down s"
  by (simp add: frame_def secure_path_down_def getSecureStore_def secure_call_fails_def)

lemma getItem_char:
  "getItem k s =
     (if secure_path_down s then AsyncStorage_getItem k s else (Inr (secure_data s k), s))"
  by (auto simp: secure_path_down_def getItem_def SecureStore_getItemAsync_def getSecureStore_def)

lemma setItem_char:
  "setItem k v s =
     (if secure_path_down s then AsyncStorage_setItem k v s
      else (Inr (), s\<lparr>secure_data := (secure_data s)(k \<mapsto> v)\<rparr>))"
  by (auto simp: secure_path_down_def setItem_def SecureStore_setItemAsync_def getSecureStore_def)

lemma deleteItem_char:
  "deleteItem k s =
     (if secure_path_down s then AsyncStorage_removeItem k s
      else (Inr (), s\<lparr>secure_data := (secure_data s)(k := None)\<rparr>))"
  by (auto simp: secure_path_down_def deleteItem_def SecureStore_deleteItemAsync_def getSecureStore_def)

lemma down_upd [simp]:
  "secure_path_down (s\<lparr>secure_data := sd\<rparr>) = secure_path_down s"
  "secure_path_down (s\<lparr>async_data := ad\<rparr>) = secure_path_down s"
  "secure_path_down (s\<lparr>accessTokenMem := a\<rparr>) = secure_path_down s"
  "secure_path_down (s\<lparr>refreshTokenMem := r\<rparr>) = secure_path_down s"
  "secure_path_down (s\<lparr>user := u\<rparr>) = secure_path_down s"
  "secure_path_down (s\<lparr>refreshInFlight := m\<rparr>) = secure_path_down s"
  "secure_path_down (s\<lparr>loading := b\<rparr>) = secure_path_down s"
  "secure_path_down (s\<lparr>log := l\<rparr>) = secure_path_down s"
  by (simp_all add: secure_path_down_def getSecureStore_def secure_call_fails_def)

lemmas storage_char = getItem_char setItem_char deleteItem_char
  AsyncStorage_getItem_def AsyncStorage_setItem_def AsyncStorage_removeItem_def

lemma setItem_frame: "frame s (snd (setItem k v s))"
  by (simp add: frame_def storage_char)

lemma deleteItem_frame: "frame s (snd (deleteItem k s))"
  by (simp add: frame_def storage_char)

lemma setItem_mem:
  "accessTokenMem (snd (setItem k v s)) = accessTokenMem s \<and>
   refreshTokenMem (snd (setItem k v s)) = refreshTokenMem s"
  by (simp add: storage_char)

lemma deleteItem_mem:
  "accessTokenMem (snd (deleteItem k s)) = accessTokenMem s \<and>
   refreshTokenMem (snd (deleteItem k s)) = refreshTokenMem s"
  by (simp add: storage_char)

lemma stored_mem [simp]:
  "stored k (s\<lparr>accessTokenMem := a\<rparr>) = stored k s"
  "stored k (s\<lparr>refreshTokenMem := r\<rparr>) = stored k s"
  "stored k (s\<lparr>user := u\<rparr>) = stored k s"
  "stored k (s\<lparr>refreshInFlight := m\<rparr>) = stored k s"
  "stored k (s\<lparr>loading := b\<rparr>) = stored k s"
  "stored k (s\<lparr>log := l\<rparr>) = stored k s"
  by (simp_all add: stored_def storage_char)

lemma stored_setItem:
  "fst (setItem k v s) = Inr () \<Longrightarrow> stored k (snd (setItem k v s)) = Inr (Some v)"
  by (simp add: stored_def storage_char split: if_splits)

lemma stored_deleteItem:
  "fst (deleteItem k s) = Inr () \<Longrightarrow> stored k (snd (deleteItem k s)) = Inr None"
  by (simp add: stored_def storage_char split: if_splits)

lemma stored_setItem_other:
  "k' \<noteq> k \<Longrightarrow> stored k' (snd (setItem k v s)) = stored k' s"
  by (simp add: stored_def storage_char)

lemma stored_deleteItem_other:
  "k' \<noteq> k \<Longrightarrow> stored k' (snd (deleteItem k s)) = stored k' s"
  by (simp add: stored_def storage_char)

lemma setItem_error: "fst (setItem k v s) = Inl e \<Longrightarrow> async_rejects s \<and> secure_path_down s"
  by (simp add: storage_char split: if_splits)

lemma persist_frame: "frame s (snd (persist k t s))"
  by (simp add: persist_def setItem_frame deleteItem_frame split: option.splits)

lemma persist_mem:
  "accessTokenMem (snd (persist k t s)) = accessTokenMem s \<and>
   refreshTokenMem (snd (persist k t s)) = refreshTokenMem s"
  by (simp add: persist_def setItem_mem deleteItem_mem split: option.splits)

lemma stored_persist:
  "fst (persist k t s) = Inr () \<Longrightarrow>
   stored k (snd (persist k t s)) = Inr (if truthy t then t else None)"
  by (auto simp: persist_def stored_setItem stored_deleteItem split: option.splits)

lemma stored_persist_other:
  "k' \<noteq> k \<Longrightarrow> stored k' (snd (persist k t s)) = stored k' s"
  by (auto simp: persist_def stored_setItem_other stored_deleteItem_other split: option.splits)

lemma persist_error: "fst (persist k t s) = Inl e \<Longrightarrow> async_rejects s \<and> secure_path_down s"
  by (auto simp: persist_def split: option.splits if_splits dest: setItem_error deleteItem_error)

lemma setTokens_unfold:
  "setTokens a r s =
     (if fst (persist ACCESS_KEY a (s\<lparr>accessTokenMem := a, refreshTokenMem := r\<rparr>)) = Inr ()
      then persist REFRESH_KEY r (snd (persist ACCESS_KEY a (s\<lparr>accessTokenMem := a, refreshTokenMem := r\<rparr>)))
      else persist ACCESS_KEY a (s\<lparr>accessTokenMem := a, refreshTokenMem := r\<rparr>))"
  by (cases "persist ACCESS_KEY a (s\<lparr>accessTokenMem := a, refreshTokenMem := r\<rparr>)")
    (auto simp: setTokens_def split: sum.splits)

lemma setTokens_frame: "frame s (snd (setTokens a r s))"
proof -
  let ?s0 = "s\<lparr>accessTokenMem := a, refreshTokenMem := r\<rparr>"
  have "frame s ?s0" by (simp add: frame_def)
  moreover have "frame ?s0 (snd (persist ACCESS_KEY a ?s0))" by (rule persist_frame)
  moreover have "frame (snd (persist ACCESS_KEY a ?s0))
      (snd (persist REFRESH_KEY r (snd (persist ACCESS_KEY a ?s0))))" by (rule persist_frame)
  ultimately show ?thesis
    unfolding setTokens_unfold by (auto intro: frame_trans)
qed

lemma setTokens_mem:
  "accessTokenMem (snd (setTokens a r s)) = a \<and> refreshTokenMem (snd (setTokens a r s)) = r"
proof -
  let ?s0 = "s\<lparr>accessTokenMem := a, refreshTokenMem := r\<rparr>"
  show ?thesis
    using persist_mem [of ACCESS_KEY a ?s0]
      persist_mem [of REFRESH_KEY r "snd (persist ACCESS_KEY a ?s0)"]
    unfolding setTokens_unfold by simp
qed

lemma keys_differ: "ACCESS_KEY \<noteq> REFRESH_KEY"
  by (simp add: ACCESS_KEY_def REFRESH_KEY_def)

lemma setTokens_stored:
  assumes "fst (setTokens a r s) = Inr ()"
  shows "stored ACCESS_KEY (snd (setTokens a r s)) = Inr (if truthy a then a else None) \<and>
         stored REFRESH_KEY (snd (setTokens a r s)) = Inr (if truthy r then r else None)"
proof -
  let ?s0 = "s\<lparr>accessTokenMem := a, refreshTokenMem := r\<rparr>"
  let ?s1 = "snd (persist ACCESS_KEY a ?s0)"
  from assms have 1: "fst (persist ACCESS_KEY a ?s0) = Inr ()"
    unfolding setTokens_unfold by (simp split: if_splits)
  with assms have 2: "fst (persist REFRESH_KEY r ?s1) = Inr ()"
    and 3: "snd (setTokens a r s) = snd (persist REFRESH_KEY r ?s1)"
    unfolding setTokens_unfold by simp_all
  show ?thesis
    using stored_persist [OF 1] stored_persist [OF 2]
      stored_persist_other [of ACCESS_KEY REFRESH_KEY r ?s1] keys_differ
    by (simp add: 3)
qed

lemma setTokens_error:
  assumes "fst (setTokens a r s) = Inl e"
  shows "async_rejects s \<and> secure_path_down s"
proof -
  let ?s0 = "s\<lparr>accessTokenMem := a, refreshTokenMem := r\<rparr>"
  let ?s1 = "snd (persist ACCESS_KEY a ?s0)"
  have f: "frame ?s0 ?s1" by (rule persist_frame)
  from assms consider "fst (persist ACCESS_KEY a ?s0) = Inl e" | "fst (persist REFRESH_KEY r ?s1) = Inl e"
    unfolding setTokens_unfold by (auto split: if_splits)
  then show ?thesis
  proof cases
    case 1
    from persist_error [OF 1] show ?thesis by simp
  next
    case 2
    from persist_error [OF 2] frame_down [OF f] f show ?thesis by (simp add: frame_def)
  qed
qed

lemma secure_out_iff: "secure_path_down s = secure_out s"
proof (cases "secure_module s")
  case ImportRejects
  then show ?thesis
    by (simp add: secure_path_down_def secure_out_def getSecureStore_def secure_call_fails_def)
next
  case (Imported a c)
  then show ?thesis
    by (cases a; cases c)
      (auto simp: secure_path_down_def secure_out_def getSecureStore_def secure_call_fails_def)
qed



section \<open>Reading and clearing the tokens\<close>

lemma load_access_frame: "frame s (snd (load_access s))"
  by (simp add: load_access_def frame_def storage_char)

lemma load_refresh_frame: "frame s (snd (load_refresh s))"
  by (simp add: load_refresh_def frame_def storage_char)

lemma load_access_stores:
  "secure_data (snd (load_access s)) = secure_data s \<and> async_data (snd (load_access s)) = async_data s"
  by (simp add: load_access_def storage_char)

lemma load_refresh_stores:
  "secure_data (snd (load_refresh s)) = secure_data s \<and> async_data (snd (load_refresh s)) = async_data s"
  by (simp add: load_refresh_def storage_char)

lemma getTokens_unfold:
  "getTokens s =
     (case fst (load_access s) of
        Inl e \<Rightarrow> (Inl e, snd (load_access s))
      | Inr u \<Rightarrow>
          (case fst (load_refresh (snd (load_access s))) of
             Inl e \<Rightarrow> (Inl e, snd (load_refresh (snd (load_access s))))
           | Inr u' \<Rightarrow>
               (Inr (accessTokenMem (snd (load_refresh (snd (load_access s)))),
                     refreshTokenMem (snd (load_refresh (snd (load_access s))))),
                snd (load_refresh (snd (load_access s))))))"
proof (cases "load_access s")
  case (Pair x s1)
  then show ?thesis
    by (cases x; cases "load_refresh s1") (auto simp: getTokens_def split: sum.splits)
qed

lemma getTokens_frame: "frame s (snd (getTokens s))"
  using load_access_frame [of s] load_refresh_frame [of "snd (load_access s)"]
  unfolding getTokens_unfold by (auto split: sum.splits intro: frame_trans)

lemma getTokens_stores:
  "secure_data (snd (getTokens s)) = secure_data s \<and> async_data (snd (getTokens s)) = async_data s"
  using load_access_stores [of s] load_refresh_stores [of "snd (load_access s)"]
  unfolding getTokens_unfold by (auto split: sum.splits)

lemma getTokens_result:
  "getTokens s = (Inr (a, r), s1) \<Longrightarrow> accessTokenMem s1 = a \<and> refreshTokenMem s1 = r"
  unfolding getTokens_unfold by (auto split: sum.splits)

lemma getTokens_cached:
  "truthy (accessTokenMem s) \<Longrightarrow> truthy (refreshTokenMem s) \<Longrightarrow>
   getTokens s = (Inr (accessTokenMem s, refreshTokenMem s), s)"
  by (simp add: getTokens_def load_access_def load_refresh_def)

lemma signOut_mem:
  "accessTokenMem (snd (signOut s)) = None \<and> refreshTokenMem (snd (signOut s)) = None"
  using setTokens_mem [of None None s]
  by (cases "setTokens None None s") (auto simp: signOut_def split: sum.splits)

lemma signOut_ok:
  assumes "fst (signOut s) = Inr ()"
  shows "user (snd (signOut s)) = None \<and>
         stored ACCESS_KEY (snd (signOut s)) = Inr None \<and>
         stored REFRESH_KEY (snd (signOut s)) = Inr None"
proof -
  obtain x s1 where st: "setTokens None None s = (x, s1)" by (cases "setTokens None None s")
  with assms have 1: "fst (setTokens None None s) = Inr ()"
    and 2: "snd (signOut s) = (snd (setTokens None None s))\<lparr>user := None\<rparr>"
    by (auto simp: signOut_def split: sum.splits)
  show ?thesis using setTokens_stored [OF 1] by (simp add: 2)
qed

lemma signOut_error:
  "fst (signOut s) = Inl e \<Longrightarrow> async_rejects s \<and> secure_path_down s"
  using setTokens_error [of None None s e]
  by (cases "setTokens None None s") (auto simp: signOut_def split: sum.splits)

lemma clear_twice: "(m(a := None, b := None))(a := None, b := None) = m(a := None, b := None)"
  by (rule ext) simp

lemma signOut_char:
  "signOut s =
     (if secure_path_down s then
        (if async_rejects s then
           (Inl StorageError, s\<lparr>accessTokenMem := None, refreshTokenMem := None\<rparr>)
         else
           (Inr (), s\<lparr>accessTokenMem := None, refreshTokenMem := None,
                       async_data := (async_data s)(ACCESS_KEY := None, REFRESH_KEY := None),
                       user := None\<rparr>))
      else
        (Inr (), s\<lparr>accessTokenMem := None, refreshTokenMem := None,
                    secure_data := (secure_data s)(ACCESS_KEY := None, REFRESH_KEY := None),
                    user := None\<rparr>))"
  by (simp add: signOut_def setTokens_def persist_def storage_char)

lemma signOut_again:
  "fst (signOut s) = Inr () \<Longrightarrow> signOut (snd (signOut s)) = (Inr (), snd (signOut s))"
  by (simp add: signOut_char clear_twice split: if_splits)

section \<open>Trimming and lower-casing\<close>

lemma is_ws_lower: "is_ws (latin1_lower u) = is_ws u"
  by (auto simp: is_ws_def latin1_lower_def is_capital_def)

lemma same_letter_lower: "same_letter u v \<Longrightarrow> latin1_lower u = latin1_lower v"
  by (auto simp: same_letter_def latin1_lower_def is_capital_def)

lemma same_letter_map: "list_all2 same_letter c1 c2 \<Longrightarrow> map latin1_lower c1 = map latin1_lower c2"
  by (induction rule: list_all2_induct) (simp_all add: same_letter_lower)

lemma trim_ws_left: "list_all is_ws l \<Longrightarrow> trim (l @ t) = trim t"
  by (simp add: trim_def list_all_iff)

lemma trim_ws_right:
  assumes "list_all is_ws r"
  shows "trim (t @ r) = trim t"
proof (cases "\<forall>c\<in>set t. is_ws c")
  case True
  with assms have a: "dropWhile is_ws (t @ r) = []" and b: "dropWhile is_ws t = []"
    by (auto simp: list_all_iff)
  show ?thesis unfolding trim_def a b by simp
next
  case False
  then obtain x where "x \<in> set t" "\<not> is_ws x" by blast
  then have "dropWhile is_ws (t @ r) = dropWhile is_ws t @ r"
    by (rule dropWhile_append1)
  moreover have "dropWhile is_ws (rev r @ u) = dropWhile is_ws u" for u
    by (rule dropWhile_append2) (use assms in \<open>auto simp: list_all_iff\<close>)
  ultimately show ?thesis unfolding trim_def by simp
qed

lemma trim_around:
  assumes "list_all is_ws (l @ r)"
  shows "trim (l @ c @ r) = trim c"
proof -
  from assms have l: "list_all is_ws l" and r: "list_all is_ws r" by simp_all
  have "trim (l @ c @ r) = trim (c @ r)" using l by (rule trim_ws_left)
  also have "\<dots> = trim c" using r by (rule trim_ws_right)
  finally show ?thesis .
qed

lemma trim_map_lower: "trim (map latin1_lower t) = map latin1_lower (trim t)"
proof -
  have "is_ws \<circ> latin1_lower = is_ws"
    by (rule ext) (simp add: is_ws_lower)
  then show ?thesis
    by (simp add: trim_def dropWhile_map rev_map)
qed

lemma trim_subset: "set (trim t) \<subseteq> set t"
proof -
  have "set (trim t) \<subseteq> set (dropWhile is_ws t)"
    unfolding trim_def by (auto dest: set_dropWhileD)
  also have "\<dots> \<subseteq> set t" by (auto dest: set_dropWhileD)
  finally show ?thesis .
qed

lemma trim_latin1: "list_all (\<lambda>u. u < 256) t \<Longrightarrow> list_all (\<lambda>u. u < 256) (trim t)"
  using trim_subset [of t] by (auto simp: list_all_iff)

lemma normalize_email:
  assumes ws: "list_all is_ws (l1 @ r1 @ l2 @ r2)"
    and lc: "lowers_latin1 lc"
    and lat: "list_all (\<lambda>u. u < 256) (c1 @ c2)"
    and sl: "list_all2 same_letter c1 c2"
  shows "lc (trim (l1 @ c1 @ r1)) = lc (trim (l2 @ c2 @ r2))"
proof -
  from ws have "list_all is_ws (l1 @ r1)" "list_all is_ws (l2 @ r2)" by simp_all
  then have t: "trim (l1 @ c1 @ r1) = trim c1" "trim (l2 @ c2 @ r2) = trim c2"
    by (simp_all only: trim_around)
  from lat have "list_all (\<lambda>u. u < 256) (trim c1)" "list_all (\<lambda>u. u < 256) (trim c2)"
    by (simp_all add: trim_latin1)
  with lc have "lc (trim c1) = map latin1_lower (trim c1)" "lc (trim c2) = map latin1_lower (trim c2)"
    by (simp_all add: lowers_latin1_def)
  moreover have "map latin1_lower (trim c1) = map latin1_lower (trim c2)"
    using same_letter_map [OF sl] by (simp add: trim_map_lower [symmetric])
  ultimately show ?thesis by (simp add: t)
qed

lemma lower_from_latin1:
  "list_all (\<lambda>u. u < 256) t \<Longrightarrow> lower_from p t = map latin1_lower t"
  by (induction t arbitrary: p) simp_all

lemma sigma_lowers_latin1: "lowers_latin1 sigma_toLowerCase"
  by (simp add: lowers_latin1_def sigma_toLowerCase_def lower_from_latin1)

lemma last_dropWhile: "dropWhile P xs \<noteq> [] \<Longrightarrow> last (dropWhile P xs) = last xs"
  by (metis last_appendR takeWhile_dropWhile_id)

lemma trim_edges:
  assumes "trim t \<noteq> []"
  shows "\<not> is_ws (hd (trim t)) \<and> \<not> is_ws (last (trim t))"
proof -
  let ?d = "dropWhile is_ws t"
  let ?u = "dropWhile is_ws (rev ?d)"
  have u: "?u \<noteq> []" using assms by (simp add: trim_def)
  have d: "?d \<noteq> []"
  proof
    assume e: "?d = []"
    have "?u = []" unfolding e by simp
    with u show False by simp
  qed
  have "last (trim t) = hd ?u" using u by (simp add: trim_def last_rev)
  moreover have "\<not> is_ws (hd ?u)" using u by (rule hd_dropWhile)
  moreover have "hd (trim t) = last ?u" using u by (simp add: trim_def hd_rev)
  moreover have "last ?u = last (rev ?d)" using u by (rule last_dropWhile)
  moreover have "last (rev ?d) = hd ?d" using d by (simp add: last_rev)
  moreover have "\<not> is_ws (hd ?d)" using d by (rule hd_dropWhile)
  ultimately show ?thesis by simp
qed

lemma trim_decomp: "\<exists>l r. x = l @ trim x @ r \<and> list_all is_ws (l @ r)"
proof -
  let ?d = "dropWhile is_ws x"
  have 1: "x = takeWhile is_ws x @ ?d" by simp
  have 2: "?d = trim x @ rev (takeWhile is_ws (rev ?d))"
    unfolding trim_def by (metis rev_append rev_rev_ident takeWhile_dropWhile_id)
  have 3: "list_all is_ws (takeWhile is_ws x @ rev (takeWhile is_ws (rev ?d)))"
    by (auto simp: list_all_iff dest: set_takeWhileD)
  from 1 2 have "x = takeWhile is_ws x @ trim x @ rev (takeWhile is_ws (rev ?d))" by simp
  with 3 show ?thesis by blast
qed

lemma apiLogin_log: "log (snd (apiLogin lc net d s)) = log s @ [login_request lc d s]"
proof (cases "net (log s) (login_request lc d s)")
  case Rejected
  then show ?thesis by (simp add: apiLogin_def fetch_def)
next
  case (Response rp)
  let ?s1 = "s\<lparr>log := log s @ [login_request lc d s]\<rparr>"
  obtain x b where st:
    "setTokens (j_accessToken (parsed rp)) (j_refreshToken (parsed rp)) ?s1 = (x, b)"
    by (cases "setTokens (j_accessToken (parsed rp)) (j_refreshToken (parsed rp)) ?s1")
  have "log b = log ?s1"
    using setTokens_frame [of ?s1 "j_accessToken (parsed rp)" "j_refreshToken (parsed rp)"]
    by (simp add: frame_def st)
  then show ?thesis
    using Response st by (simp add: apiLogin_def fetch_def split: sum.splits)
qed

lemma apiRegister_log: "log (snd (apiRegister lc net d s)) = log s @ [register_request lc d s]"
proof (cases "net (log s) (register_request lc d s)")
  case Rejected
  then show ?thesis by (simp add: apiRegister_def fetch_def)
next
  case (Response rp)
  let ?s1 = "s\<lparr>log := log s @ [register_request lc d s]\<rparr>"
  obtain x b where st:
    "setTokens (j_accessToken (parsed rp)) (j_refreshToken (parsed rp)) ?s1 = (x, b)"
    by (cases "setTokens (j_accessToken (parsed rp)) (j_refreshToken (parsed rp)) ?s1")
  have "log b = log ?s1"
    using setTokens_frame [of ?s1 "j_accessToken (parsed rp)" "j_refreshToken (parsed rp)"]
    by (simp add: frame_def st)
  then show ?thesis
    using Response st by (simp add: apiRegister_def fetch_def split: sum.splits)
qed

lemma signIn_log: "log (snd (signIn lc net d s)) = log s @ [login_request lc d s]"
  using apiLogin_log [of lc net d s]
  by (cases "apiLogin lc net d s") (auto simp: signIn_def split: sum.splits)

lemma signUp_log: "log (snd (signUp lc net d s)) = log s @ [register_request lc d s]"
  using apiRegister_log [of lc net d s]
  by (cases "apiRegister lc net d s") (auto simp: signUp_def split: sum.splits)

text \<open>
  C10, as amended. Whatever \<^verbatim>\<open>toLowerCase\<close> is, \<^verbatim>\<open>signIn\<close> sends exactly one request, to the
  login route, whose body holds \<^verbatim>\<open>toLowerCase\<close> of the trimmed email and the password
  unchanged, and \<^verbatim>\<open>signUp\<close> sends exactly one request, to the register route, whose body
  holds the trimmed name, \<^verbatim>\<open>toLowerCase\<close> of the trimmed email and the password unchanged.
  White space is the set of code units listed; trimming removes a white-space prefix
  and suffix and leaves no white space at either end. So two emails that differ only
  in surrounding white space make \<^verbatim>\<open>signIn\<close> (and \<^verbatim>\<open>signUp\<close>) send identical requests.
  Two emails of code units below 256 that differ only in surrounding white space and
  in the case of letters do so as well, given that \<^verbatim>\<open>toLowerCase\<close> replaces each capital
  by its small form on such strings.
\<close>

theorem sign_in_up_normalization:
  "log (snd (signIn lc net \<lparr>email = e, password = pw\<rparr> s)) =
      log s @ [\<lparr>url = AUTH_BASE s @ ''/login'',
                init = \<lparr>http_method = ''POST'', headers = json_headers,
                        body = Some [(''email'', lc (trim e)), (''password'', pw)]\<rparr>\<rparr>] \<and>
   log (snd (signUp lc net \<lparr>email = e, password = pw, name = nm\<rparr> s)) =
      log s @ [\<lparr>url = AUTH_BASE s @ ''/register'',
                init = \<lparr>http_method = ''POST'', headers = json_headers,
                        body = Some [(''name'', trim nm), (''email'', lc (trim e)),
                                     (''password'', pw)]\<rparr>\<rparr>] \<and>
   (\<forall>u. is_ws u =
      (u \<in> {9, 10, 11, 12, 13, 32, 160, 5760, 8232, 8233, 8239, 8287, 12288, 65279} \<or>
       (8192 \<le> u \<and> u \<le> 8202))) \<and>
   (\<exists>l r. x = l @ trim x @ r \<and> list_all is_ws (l @ r)) \<and>
   (trim x \<noteq> [] \<longrightarrow> \<not> is_ws (hd (trim x)) \<and> \<not> is_ws (last (trim x))) \<and>
   (list_all is_ws (l1 @ r1 @ l2 @ r2) \<longrightarrow>
      log (snd (signIn lc net \<lparr>email = l1 @ c @ r1, password = pw\<rparr> s)) =
        log (snd (signIn lc net \<lparr>email = l2 @ c @ r2, password = pw\<rparr> s)) \<and>
      log (snd (signUp lc net \<lparr>email = l1 @ c @ r1, password = pw, name = nm\<rparr> s)) =
        log (snd (signUp lc net \<lparr>email = l2 @ c @ r2, password = pw, name = nm\<rparr> s))) \<and>
   (list_all is_ws (l1 @ r1 @ l2 @ r2) \<and> lowers_latin1 lc \<and>
    list_all (\<lambda>u. u < 256) (c1 @ c2) \<and> list_all2 same_letter c1 c2 \<longrightarrow>
      log (snd (signIn lc net \<lparr>email = l1 @ c1 @ r1, password = pw\<rparr> s)) =
        log (snd (signIn lc net \<lparr>email = l2 @ c2 @ r2, password = pw\<rparr> s)) \<and>
      log (snd (signUp lc net \<lparr>email = l1 @ c1 @ r1, password = pw, name = nm\<rparr> s)) =
        log (snd (signUp lc net \<lparr>email = l2 @ c2 @ r2, password = pw, name = nm\<rparr> s)))"
proof -
  have 1: "log (snd (signIn lc net \<lparr>email = e, password = pw\<rparr> s)) =
      log s @ [\<lparr>url = AUTH_BASE s @ ''/login'',
                init = \<lparr>http_method = ''POST'', headers = json_headers,
                        body = Some [(''email'', lc (trim e)), (''password'', pw)]\<rparr>\<rparr>]"
    by (simp add: signIn_log login_request_def)
  have 2: "log (snd (signUp lc net \<lparr>email = e, password = pw, name = nm\<rparr> s)) =
      log s @ [\<lparr>url = AUTH_BASE s @ ''/register'',
                init = \<lparr>http_method = ''POST'', headers = json_headers,
                        body = Some [(''name'', trim nm), (''email'', lc (trim e)),
                                     (''password'', pw)]\<rparr>\<rparr>]"
    by (simp add: signUp_log register_request_def)
  have 3: "\<forall>u. is_ws u =
      (u \<in> {9, 10, 11, 12, 13, 32, 160, 5760, 8232, 8233, 8239, 8287, 12288, 65279} \<or>
       (8192 \<le> u \<and> u \<le> 8202))"
    by (simp add: is_ws_def)
  have 4: "list_all is_ws (l1 @ r1 @ l2 @ r2) \<longrightarrow>
      log (snd (signIn lc net \<lparr>email = l1 @ c @ r1, password = pw\<rparr> s)) =
        log (snd (signIn lc net \<lparr>email = l2 @ c @ r2, password = pw\<rparr> s)) \<and>
      log (snd (signUp lc net \<lparr>email = l1 @ c @ r1, password = pw, name = nm\<rparr> s)) =
        log (snd (signUp lc net \<lparr>email = l2 @ c @ r2, password = pw, name = nm\<rparr> s))"
  proof
    assume "list_all is_ws (l1 @ r1 @ l2 @ r2)"
    then have "list_all is_ws (l1 @ r1)" "list_all is_ws (l2 @ r2)" by simp_all
    then have "trim (l1 @ c @ r1) = trim (l2 @ c @ r2)" by (simp only: trim_around)
    then show "log (snd (signIn lc net \<lparr>email = l1 @ c @ r1, password = pw\<rparr> s)) =
        log (snd (signIn lc net \<lparr>email = l2 @ c @ r2, password = pw\<rparr> s)) \<and>
      log (snd (signUp lc net \<lparr>email = l1 @ c @ r1, password = pw, name = nm\<rparr> s)) =
        log (snd (signUp lc net \<lparr>email = l2 @ c @ r2, password = pw, name = nm\<rparr> s))"
      by (simp add: signIn_log signUp_log login_request_def register_request_def)
  qed
  have 5: "list_all is_ws (l1 @ r1 @ l2 @ r2) \<and> lowers_latin1 lc \<and>
    list_all (\<lambda>u. u < 256) (c1 @ c2) \<and> list_all2 same_letter c1 c2 \<longrightarrow>
      log (snd (signIn lc net \<lparr>email = l1 @ c1 @ r1, password = pw\<rparr> s)) =
        log (snd (signIn lc net \<lparr>email = l2 @ c2 @ r2, password = pw\<rparr> s)) \<and>
      log (snd (signUp lc net \<lparr>email = l1 @ c1 @ r1, password = pw, name = nm\<rparr> s)) =
        log (snd (signUp lc net \<lparr>email = l2 @ c2 @ r2, password = pw, name = nm\<rparr> s))"
  proof
    assume h: "list_all is_ws (l1 @ r1 @ l2 @ r2) \<and> lowers_latin1 lc \<and>
      list_all (\<lambda>u. u < 256) (c1 @ c2) \<and> list_all2 same_letter c1 c2"
    then have "lc (trim (l1 @ c1 @ r1)) = lc (trim (l2 @ c2 @ r2))"
      by (intro normalize_email) simp_all
    then show "log (snd (signIn lc net \<lparr>email = l1 @ c1 @ r1, password = pw\<rparr> s)) =
        log (snd (signIn lc net \<lparr>email = l2 @ c2 @ r2, password = pw\<rparr> s)) \<and>
      log (snd (signUp lc net \<lparr>email = l1 @ c1 @ r1, password = pw, name = nm\<rparr> s)) =
        log (snd (signUp lc net \<lparr>email = l2 @ c2 @ r2, password = pw, name = nm\<rparr> s))"
      by (simp add: signIn_log signUp_log login_request_def register_request_def)
  qed
  from 1 2 3 4 5 trim_decomp [of x] trim_edges [of x] show ?thesis by blast
qed

theorem sign_in_up_normalization_witness:
  "list_all is_ws ([32, 9] @ [160] @ [] @ []) \<and>
   lowers_latin1 sigma_toLowerCase \<and>
   list_all (\<lambda>u. u < 256) (units ''Bob@X.org'' @ units ''bob@x.ORG'') \<and>
   list_all2 same_letter (units ''Bob@X.org'') (units ''bob@x.ORG'') \<and>
   log (snd (signIn sigma_toLowerCase offline
              \<lparr>email = [32, 9] @ units ''Bob@X.org'' @ [160], password = units ''pw''\<rparr>
              signed_in_web)) =
     log (snd (signIn sigma_toLowerCase offline
                \<lparr>email = [] @ units ''bob@x.ORG'' @ [], password = units ''pw''\<rparr>
                signed_in_web)) \<and>
   log (snd (signIn sigma_toLowerCase offline
              \<lparr>email = [32, 9] @ units ''Bob@X.org'' @ [160], password = units ''pw''\<rparr>
              signed_in_web)) =
     [\<lparr>url = ''http://localhost:5001/api/auth/login'',
       init = \<lparr>http_method = ''POST'', headers = json_headers,
               body = Some [(''email'', units ''bob@x.org''), (''password'', units ''pw'')]\<rparr>\<rparr>]"
proof -
  have h1: "list_all is_ws ([32, 9] @ [160] @ [] @ [])"
    by (simp add: is_ws_def)
  have h2: "lowers_latin1 sigma_toLowerCase"
    by (rule sigma_lowers_latin1)
  have h3: "list_all (\<lambda>u. u < 256) (units ''Bob@X.org'' @ units ''bob@x.ORG'')"
    by (simp add: units_def)
  have h4: "list_all2 same_letter (units ''Bob@X.org'') (units ''bob@x.ORG'')"
    by (simp add: units_def same_letter_def is_capital_def)
  note T = sign_in_up_normalization [of sigma_toLowerCase offline
      "[32, 9] @ units ''Bob@X.org'' @ [160]" "units ''pw''" signed_in_web "[]" "[]"
      "[32, 9]" "[160]" "[]" "[]" "[]" "units ''Bob@X.org''" "units ''bob@x.ORG''"]
  have a: "log (snd (signIn sigma_toLowerCase offline
              \<lparr>email = [32, 9] @ units ''Bob@X.org'' @ [160], password = units ''pw''\<rparr>
              signed_in_web)) =
     log (snd (signIn sigma_toLowerCase offline
                \<lparr>email = [] @ units ''bob@x.ORG'' @ [], password = units ''pw''\<rparr>
                signed_in_web))"
    using T [THEN conjunct2, THEN conjunct2, THEN conjunct2, THEN conjunct2, THEN conjunct2,
        THEN conjunct2] h1 h2 h3 h4
    by blast
  have e: "sigma_toLowerCase (trim ([32, 9] @ units ''Bob@X.org'' @ [160])) = units ''bob@x.org''"
    by (simp add: units_def trim_def is_ws_def sigma_toLowerCase_def latin1_lower_def
        is_capital_def is_cased_def is_case_ignorable_def)
  have u: "AUTH_BASE signed_in_web @ ''/login'' = ''http://localhost:5001/api/auth/login''"
    and l: "log signed_in_web = []"
    by (simp_all add: AUTH_BASE_def signed_in_web_def)
  have b: "log (snd (signIn sigma_toLowerCase offline
              \<lparr>email = [32, 9] @ units ''Bob@X.org'' @ [160], password = units ''pw''\<rparr>
              signed_in_web)) =
     [\<lparr>url = ''http://localhost:5001/api/auth/login'',
       init = \<lparr>http_method = ''POST'', headers = json_headers,
               body = Some [(''email'', units ''bob@x.org''), (''password'', units ''pw'')]\<rparr>\<rparr>]"
    using T [THEN conjunct1] by (simp only: e u l append_Nil)
  from a b h1 h2 h3 h4 show ?thesis by blast
qed

text \<open>
  C10 as stated fails beyond code units below 256, where \<^verbatim>\<open>toLowerCase\<close> depends on the
  context: the emails \<^verbatim>\<open>U+0041 U+03A3\<close> and \<^verbatim>\<open>U+0041 U+03C3\<close> differ only in the case of
  the sigma, and they are sent as \<^verbatim>\<open>U+0061 U+03C2\<close> and \<^verbatim>\<open>U+0061 U+03C3\<close>.
\<close>

theorem sign_in_final_sigma_counterexample:
  "log (snd (signIn sigma_toLowerCase offline \<lparr>email = [65, 931], password = units ''pw''\<rparr>
              signed_in_web)) =
     [\<lparr>url = ''http://localhost:5001/api/auth/login'',
       init = \<lparr>http_method = ''POST'', headers = json_headers,
               body = Some [(''email'', [97, 962]), (''password'', units ''pw'')]\<rparr>\<rparr>] \<and>
   log (snd (signIn sigma_toLowerCase offline \<lparr>email = [65, 963], password = units ''pw''\<rparr>
              signed_in_web)) =
     [\<lparr>url = ''http://localhost:5001/api/auth/login'',
       init = \<lparr>http_method = ''POST'', headers = json_headers,
               body = Some [(''email'', [97, 963]), (''password'', units ''pw'')]\<rparr>\<rparr>]"
  by (simp add: signIn_def apiLogin_def fetch_def offline_def login_request_def AUTH_BASE_def
      trim_def is_ws_def sigma_toLowerCase_def latin1_lower_def is_capital_def is_cased_def
      is_case_ignorable_def signed_in_web_def)

section \<open>Signing out\<close>

text \<open>
  C5, as amended. \<^verbatim>\<open>signOut\<close> clears both in-memory credentials in every case. Where
  the secure store is unavailable or its call rejects, and the generic store accepts
  the call, it removes both credentials from the generic store, clears the profile and
  changes nothing else, the secure store included; where the secure store serves the
  call, it removes both credentials from the secure store, clears the profile and
  changes nothing else, the generic store included. After a \<^verbatim>\<open>signOut\<close> that did not
  raise, a further \<^verbatim>\<open>signOut\<close> changes nothing and does not raise. It does not raise
  unless the generic store rejects while the secure store is unavailable or rejecting.
\<close>

theorem signOut_clears:
  "accessTokenMem (snd (signOut s)) = None \<and> refreshTokenMem (snd (signOut s)) = None \<and>
   (secure_out s \<and> \<not> async_rejects s \<longrightarrow>
      signOut s =
        (Inr (), s\<lparr>accessTokenMem := None, refreshTokenMem := None,
                    async_data := (async_data s)(ACCESS_KEY := None, REFRESH_KEY := None),
                    user := None\<rparr>)) \<and>
   (\<not> secure_out s \<longrightarrow>
      signOut s =
        (Inr (), s\<lparr>accessTokenMem := None, refreshTokenMem := None,
                    secure_data := (secure_data s)(ACCESS_KEY := None, REFRESH_KEY := None),
                    user := None\<rparr>)) \<and>
   (fst (signOut s) = Inr () \<longrightarrow>
      user (snd (signOut s)) = None \<and>
      signOut (snd (signOut s)) = (Inr (), snd (signOut s))) \<and>
   (\<not> (async_rejects s \<and> secure_out s) \<longrightarrow> fst (signOut s) = Inr ())"
proof -
  have 1: "secure_out s \<and> \<not> async_rejects s \<longrightarrow>
      signOut s =
        (Inr (), s\<lparr>accessTokenMem := None, refreshTokenMem := None,
                    async_data := (async_data s)(ACCESS_KEY := None, REFRESH_KEY := None),
                    user := None\<rparr>)"
    by (simp add: signOut_char secure_out_iff)
  have 2: "\<not> secure_out s \<longrightarrow>
      signOut s =
        (Inr (), s\<lparr>accessTokenMem := None, refreshTokenMem := None,
                    secure_data := (secure_data s)(ACCESS_KEY := None, REFRESH_KEY := None),
                    user := None\<rparr>)"
    by (simp add: signOut_char secure_out_iff)
  have 3: "fst (signOut s) = Inr () \<longrightarrow>
      user (snd (signOut s)) = None \<and>
      signOut (snd (signOut s)) = (Inr (), snd (signOut s))"
    using signOut_ok [of s] signOut_again [of s] by blast
  have 4: "\<not> (async_rejects s \<and> secure_out s) \<longrightarrow> fst (signOut s) = Inr ()"
    by (simp add: signOut_char secure_out_iff)
  from 1 2 3 4 signOut_mem [of s] show ?thesis by blast
qed

theorem signOut_clears_witness:
  "secure_out signed_in_web \<and> \<not> async_rejects signed_in_web \<and>
   signOut signed_in_web =
     (Inr (), signed_in_web\<lparr>accessTokenMem := None, refreshTokenMem := None,
                async_data := (async_data signed_in_web)(ACCESS_KEY := None, REFRESH_KEY := None),
                user := None\<rparr>) \<and>
   async_data (snd (signOut signed_in_web)) ''accessToken'' = None \<and>
   async_data (snd (signOut signed_in_web)) ''refreshToken'' = None \<and>
   user (snd (signOut signed_in_web)) = None \<and>
   signOut (snd (signOut signed_in_web)) = (Inr (), snd (signOut signed_in_web))"
proof -
  have h1: "secure_out signed_in_web" and h2: "\<not> async_rejects signed_in_web"
    by (simp_all add: secure_out_def signed_in_web_def)
  from signOut_clears [of signed_in_web] h1 h2
  have a: "signOut signed_in_web =
     (Inr (), signed_in_web\<lparr>accessTokenMem := None, refreshTokenMem := None,
                async_data := (async_data signed_in_web)(ACCESS_KEY := None, REFRESH_KEY := None),
                user := None\<rparr>)" by blast
  then have b: "fst (signOut signed_in_web) = Inr ()" by simp
  from signOut_clears [of signed_in_web] b
  have c: "user (snd (signOut signed_in_web)) = None \<and>
      signOut (snd (signOut signed_in_web)) = (Inr (), snd (signOut signed_in_web))" by blast
  have d: "async_data (snd (signOut signed_in_web)) ''accessToken'' = None \<and>
      async_data (snd (signOut signed_in_web)) ''refreshToken'' = None"
    by (simp add: a ACCESS_KEY_def REFRESH_KEY_def)
  from a c d h1 h2 show ?thesis by blast
qed

text \<open>
  C5 as stated fails twice. With a rejecting generic store \<^verbatim>\<open>signOut\<close> raises, and the
  profile stays. On a device whose secure store rejects, \<^verbatim>\<open>signOut\<close> does not raise and
  deletes from the generic store only: both credentials are still in the secure
  store, and \<^verbatim>\<open>getTokens\<close> reads them again once the secure store answers.
\<close>

theorem signOut_storage_failure_counterexample:
  "user storage_down = Some alice \<and>
   fst (signOut storage_down) = Inl StorageError \<and>
   user (snd (signOut storage_down)) = Some alice \<and>
   fst (signOut locked_signed_in) = Inr () \<and>
   secure_data (snd (signOut locked_signed_in)) ''accessToken'' = Some ''a1'' \<and>
   secure_data (snd (signOut locked_signed_in)) ''refreshToken'' = Some ''r1'' \<and>
   fst (getTokens ((snd (signOut locked_signed_in))\<lparr>secure_rejects := False\<rparr>)) =
     Inr (Some ''a1'', Some ''r1'')"
  by (simp add: signOut_def setTokens_def persist_def deleteItem_def AsyncStorage_removeItem_def
      SecureStore_deleteItemAsync_def SecureStore_getItemAsync_def secure_call_fails_def
      getSecureStore_def getTokens_def load_access_def load_refresh_def getItem_def
      ACCESS_KEY_def REFRESH_KEY_def
      storage_down_def signed_in_web_def locked_signed_in_def)

section \<open>Refreshing the access token\<close>

lemma refresh_reject_frame:
  "log (snd (refresh_reject j s)) = log s \<and> refreshInFlight (snd (refresh_reject j s)) = None"
  using setTokens_frame [of s None None]
  by (cases "setTokens None None s") (auto simp: refresh_reject_def frame_def split: sum.splits)

lemma refresh_accept_frame:
  "log (snd (refresh_accept n rt s)) = log s \<and> refreshInFlight (snd (refresh_accept n rt s)) = None"
  using setTokens_frame [of s "Some n" "Some rt"]
  by (cases "setTokens (Some n) (Some rt) s") (auto simp: refresh_accept_def frame_def split: sum.splits)

lemma refresh_settle_frame:
  "log (snd (refresh_settle rt rp s)) = log s \<and> refreshInFlight (snd (refresh_settle rt rp s)) = None"
  by (simp add: refresh_settle_def refresh_reject_frame refresh_accept_frame split: option.splits)

section \<open>The authenticated request gateway\<close>

lemma getItem_stored: "getItem k s = (stored k s, s)"
  by (simp add: stored_def getItem_state prod_eq_iff)

lemma getTokens_char:
  "getTokens s =
     (case (if truthy (accessTokenMem s) then Inr (accessTokenMem s) else stored ACCESS_KEY s) of
        Inl e \<Rightarrow> (Inl e, s)
      | Inr a \<Rightarrow>
          (case (if truthy (refreshTokenMem s) then Inr (refreshTokenMem s) else stored REFRESH_KEY s) of
             Inl e \<Rightarrow> (Inl e, s\<lparr>accessTokenMem := a\<rparr>)
           | Inr r \<Rightarrow> (Inr (a, r), s\<lparr>accessTokenMem := a, refreshTokenMem := r\<rparr>)))"
  by (simp add: getTokens_def load_access_def load_refresh_def getItem_stored split: sum.splits)

lemma getTokens_idem:
  assumes "getTokens s = (Inr (a, r), s1)"
  shows "getTokens s1 = (Inr (a, r), s1)"
proof -
  from assms have A: "(if truthy (accessTokenMem s) then Inr (accessTokenMem s) else stored ACCESS_KEY s) = Inr a"
    and R: "(if truthy (refreshTokenMem s) then Inr (refreshTokenMem s) else stored REFRESH_KEY s) = Inr r"
    and s1: "s1 = s\<lparr>accessTokenMem := a, refreshTokenMem := r\<rparr>"
    by (auto simp: getTokens_char split: sum.splits)
  have sa: "stored ACCESS_KEY s = Inr a" if "\<not> truthy a"
    using A that by (auto split: if_splits)
  have sr: "stored REFRESH_KEY s = Inr r" if "\<not> truthy r"
    using R that by (auto split: if_splits)
  show ?thesis
    unfolding s1 by (cases "truthy a"; cases "truthy r") (simp_all add: getTokens_char sa sr)
qed

lemma getTokens_log:
  "getTokens (s\<lparr>log := l\<rparr>) = (fst (getTokens s), (snd (getTokens s))\<lparr>log := l\<rparr>)"
  by (simp add: getTokens_char split: sum.splits)

lemma first_request_frame: "frame s s1 \<Longrightarrow> first_request path i a s1 = first_request path i a s"
  by (simp add: first_request_def frame_def)

lemma refresh_request_frame: "frame s s1 \<Longrightarrow> refresh_request rt s1 = refresh_request rt s"
  by (simp add: refresh_request_def AUTH_BASE_def frame_def)

lemma refreshAccessToken_unfold:
  assumes "getTokens s = (Inr (a, r), s1)"
  shows "refreshAccessToken net s =
     (case r of
        None \<Rightarrow> (Inl NoRefreshToken, s1)
      | Some rt \<Rightarrow>
          if rt = [] then (Inl NoRefreshToken, s1)
          else
            (case refreshInFlight s1 of
               Some p \<Rightarrow> (p, s1)
             | None \<Rightarrow>
                 (case net (log s1) (refresh_request rt s1) of
                    Rejected \<Rightarrow> (Inl NetworkError, s1\<lparr>log := log s1 @ [refresh_request rt s1]\<rparr>)
                  | Response rp \<Rightarrow>
                      refresh_settle rt rp (s1\<lparr>log := log s1 @ [refresh_request rt s1]\<rparr>))))"
  using assms
  by (simp add: refreshAccessToken_def fetch_def split: option.splits fetch_result.splits)

lemma refreshAccessToken_log:
  "log (snd (refreshAccessToken net s)) = log s \<or>
   (\<exists>rt. log (snd (refreshAccessToken net s)) = log s @ [refresh_request rt s])"
proof (cases "getTokens s")
  case (Pair x s1)
  have f: "frame s s1" using getTokens_frame [of s] Pair by simp
  then have l: "log s1 = log s" by (simp add: frame_def)
  show ?thesis
  proof (cases x)
    case (Inl e)
    then show ?thesis using Pair l by (simp add: refreshAccessToken_def)
  next
    case (Inr ar)
    obtain a r where ar: "ar = (a, r)" by (cases ar)
    note u = refreshAccessToken_unfold [of s a r s1 net]
    have q: "refresh_request rt s1 = refresh_request rt s" for rt
      using f by (rule refresh_request_frame)
    show ?thesis
      using Pair Inr ar l refresh_settle_frame
      by (auto simp: u q split: option.splits fetch_result.splits)
  qed
qed

lemma authFetch_unfold:
  assumes "getTokens s = (Inr (a, r), s1)"
    and "net (log s1) (first_request path i a s1) = Response rp"
  shows "authFetch net path i True s =
     (if status rp \<noteq> 401 then (answer rp, s1\<lparr>log := log s1 @ [first_request path i a s1]\<rparr>)
      else
        (case refreshAccessToken net (s1\<lparr>log := log s1 @ [first_request path i a s1]\<rparr>) of
           (Inl e, s3) \<Rightarrow> (Inl e, s3)
         | (Inr n, s3) \<Rightarrow>
             (case net (log s3) (retry_request (first_request path i a s1) n) of
                Rejected \<Rightarrow> Inl NetworkError
              | Response rp2 \<Rightarrow> answer rp2,
              s3\<lparr>log := log s3 @ [retry_request (first_request path i a s1) n]\<rparr>)))"
  using assms
  by (simp add: authFetch_def fetch_def split: prod.splits sum.splits fetch_result.splits)

text \<open>
  C2. For a call of \<^verbatim>\<open>authFetch\<close> (first attempt) whose tokens were read and whose
  request was answered: a status other than 401 gives the parsed body when the status
  is 2xx and otherwise a request error with the status and the parsed body, and
  nothing happens besides the one request. A 401 runs \<^verbatim>\<open>refreshAccessToken\<close>; when that
  fails the call fails with its error and sends nothing more; when it gives a new
  credential the same request, with only the Authorization header replaced by the
  new bearer, is sent once, and its answer decides the result in the same way. In
  all, the call sends its request, at most one refresh request and at most one
  retry.
\<close>

theorem authFetch_retry_once:
  assumes "getTokens s = (Inr (a, r), s1)"
    and "net (log s1) (first_request path i a s1) = Response rp"
  shows
   "(status rp \<noteq> 401 \<longrightarrow>
       authFetch net path i True s =
         (if ok rp then Inr (parsed rp) else Inl (RequestFailed (status rp) (parsed rp)),
          s1\<lparr>log := log s1 @ [first_request path i a s1]\<rparr>)) \<and>
    (status rp = 401 \<longrightarrow>
       (\<forall>e s3. refreshAccessToken net (s1\<lparr>log := log s1 @ [first_request path i a s1]\<rparr>) = (Inl e, s3) \<longrightarrow>
          authFetch net path i True s = (Inl e, s3)) \<and>
       (\<forall>n s3. refreshAccessToken net (s1\<lparr>log := log s1 @ [first_request path i a s1]\<rparr>) = (Inr n, s3) \<longrightarrow>
          snd (authFetch net path i True s) =
            s3\<lparr>log := log s3 @ [retry_request (first_request path i a s1) n]\<rparr> \<and>
          fst (authFetch net path i True s) =
            (case net (log s3) (retry_request (first_request path i a s1) n) of
               Rejected \<Rightarrow> Inl NetworkError
             | Response rp2 \<Rightarrow>
                 if ok rp2 then Inr (parsed rp2)
                 else Inl (RequestFailed (status rp2) (parsed rp2))))) \<and>
    (\<exists>R T. log (snd (authFetch net path i True s)) = log s @ [first_request path i a s1] @ R @ T \<and>
        (R = [] \<or> (\<exists>rt. R = [refresh_request rt s])) \<and>
        (T = [] \<or> (\<exists>n. T = [retry_request (first_request path i a s1) n])) \<and>
        (status rp \<noteq> 401 \<longrightarrow> R = [] \<and> T = [])) \<and>
    url (retry_request q n') = url q \<and>
    http_method (init (retry_request q n')) = http_method (init q) \<and>
    body (init (retry_request q n')) = body (init q) \<and>
    headers (init (retry_request q n')) = (headers (init q))(''Authorization'' \<mapsto> ''Bearer '' @ n')"
proof -
  let ?q = "first_request path i a s1"
  let ?s2 = "s1\<lparr>log := log s1 @ [?q]\<rparr>"
  note u = authFetch_unfold [where net = net, OF assms]
  have f: "frame s s1" using getTokens_frame [of s] assms(1) by simp
  then have l: "log s1 = log s" by (simp add: frame_def)
  have 1: "status rp \<noteq> 401 \<longrightarrow>
       authFetch net path i True s =
         (if ok rp then Inr (parsed rp) else Inl (RequestFailed (status rp) (parsed rp)), ?s2)"
    by (simp add: u answer_def)
  have 2: "status rp = 401 \<longrightarrow>
       (\<forall>e s3. refreshAccessToken net ?s2 = (Inl e, s3) \<longrightarrow>
          authFetch net path i True s = (Inl e, s3)) \<and>
       (\<forall>n s3. refreshAccessToken net ?s2 = (Inr n, s3) \<longrightarrow>
          snd (authFetch net path i True s) = s3\<lparr>log := log s3 @ [retry_request ?q n]\<rparr> \<and>
          fst (authFetch net path i True s) =
            (case net (log s3) (retry_request ?q n) of
               Rejected \<Rightarrow> Inl NetworkError
             | Response rp2 \<Rightarrow>
                 if ok rp2 then Inr (parsed rp2)
                 else Inl (RequestFailed (status rp2) (parsed rp2))))"
    by (simp add: u answer_def split: fetch_result.splits)
  have 3: "\<exists>R T. log (snd (authFetch net path i True s)) = log s @ [?q] @ R @ T \<and>
        (R = [] \<or> (\<exists>rt. R = [refresh_request rt s])) \<and>
        (T = [] \<or> (\<exists>n. T = [retry_request ?q n])) \<and>
        (status rp \<noteq> 401 \<longrightarrow> R = [] \<and> T = [])"
  proof (cases "status rp = 401")
    case False
    then have "log (snd (authFetch net path i True s)) = log s @ [?q] @ [] @ []"
      by (simp add: u l)
    then show ?thesis by blast
  next
    case True
    obtain x s3 where r: "refreshAccessToken net ?s2 = (x, s3)"
      by (cases "refreshAccessToken net ?s2")
    have q2: "refresh_request rt ?s2 = refresh_request rt s" for rt
      using f by (simp add: refresh_request_def AUTH_BASE_def frame_def)
    have "log s3 = log ?s2 \<or> (\<exists>rt. log s3 = log ?s2 @ [refresh_request rt ?s2])"
      using refreshAccessToken_log [of net ?s2] r by simp
    then have "log s3 = log s @ [?q] @ [] \<or> (\<exists>rt. log s3 = log s @ [?q] @ [refresh_request rt s])"
      unfolding q2 by (simp add: l)
    then obtain R where R: "log s3 = log s @ [?q] @ R" "R = [] \<or> (\<exists>rt. R = [refresh_request rt s])"
      by blast
    show ?thesis
    proof (cases x)
      case (Inl e)
      then have "log (snd (authFetch net path i True s)) = log s @ [?q] @ R @ []"
        using True r R(1) by (simp add: u)
      with R(2) True show ?thesis by blast
    next
      case (Inr n)
      then have "log (snd (authFetch net path i True s)) = log s @ [?q] @ R @ [retry_request ?q n]"
        using True r R(1) by (simp add: u)
      with R(2) True show ?thesis by blast
    qed
  qed
  have 4: "url (retry_request q n') = url q \<and>
    http_method (init (retry_request q n')) = http_method (init q) \<and>
    body (init (retry_request q n')) = body (init q) \<and>
    headers (init (retry_request q n')) = (headers (init q))(''Authorization'' \<mapsto> ''Bearer '' @ n')"
    by (simp add: retry_request_def)
  from 1 2 3 4 show ?thesis by blast
qed

theorem authFetch_retry_once_witness:
  "getTokens signed_in_web = (Inr (Some ''a1'', Some ''r1''), signed_in_web) \<and>
   renewing (log signed_in_web) (first_request ''/api/auth/me'' me_init (Some ''a1'') signed_in_web) =
     Response \<lparr>status = 401, body_json = None\<rparr> \<and>
   fst (refreshAccessToken renewing
     (signed_in_web\<lparr>log := log signed_in_web @
        [first_request ''/api/auth/me'' me_init (Some ''a1'') signed_in_web]\<rparr>)) = Inr ''a2'' \<and>
   fst (authFetch renewing ''/api/auth/me'' me_init True signed_in_web) =
     Inr (empty_json\<lparr>j_user := Some alice\<rparr>)"
proof -
  let ?q = "first_request ''/api/auth/me'' me_init (Some ''a1'') signed_in_web"
  let ?s2 = "signed_in_web\<lparr>log := log signed_in_web @ [?q]\<rparr>"
  let ?rp = "\<lparr>status = 401, body_json = None\<rparr>"
  have h1: "getTokens signed_in_web = (Inr (Some ''a1'', Some ''r1''), signed_in_web)"
    by (simp add: getTokens_def load_access_def load_refresh_def signed_in_web_def)
  have h2: "renewing (log signed_in_web) ?q = Response ?rp"
    by (simp add: renewing_def first_request_def me_init_def bearer_def json_headers_def
        signed_in_web_def)
  have h3: "fst (refreshAccessToken renewing ?s2) = Inr ''a2''"
    by (simp add: refreshAccessToken_def getTokens_def load_access_def load_refresh_def fetch_def
        refresh_request_def AUTH_BASE_def renewing_def refresh_settle_def parsed_def ok_def
        empty_json_def refresh_accept_def setTokens_def persist_def setItem_def
        AsyncStorage_setItem_def signed_in_web_def)
  then obtain s3 where r: "refreshAccessToken renewing ?s2 = (Inr ''a2'', s3)"
    by (cases "refreshAccessToken renewing ?s2") simp
  have st: "status ?rp = 401" by simp
  from authFetch_retry_once [where net = renewing, OF h1 h2] st r
  have "fst (authFetch renewing ''/api/auth/me'' me_init True signed_in_web) =
      (case renewing (log s3) (retry_request ?q ''a2'') of
         Rejected \<Rightarrow> Inl NetworkError
       | Response rp2 \<Rightarrow>
           if ok rp2 then Inr (parsed rp2) else Inl (RequestFailed (status rp2) (parsed rp2)))"
    by blast
  moreover have "renewing (log s3) (retry_request ?q ''a2'') =
      Response \<lparr>status = 200, body_json = Some (empty_json\<lparr>j_user := Some alice\<rparr>)\<rparr>"
    by (simp add: renewing_def retry_request_def first_request_def me_init_def signed_in_web_def)
  ultimately have "fst (authFetch renewing ''/api/auth/me'' me_init True signed_in_web) =
      Inr (empty_json\<lparr>j_user := Some alice\<rparr>)"
    by (simp add: ok_def parsed_def)
  with h1 h2 h3 show ?thesis by blast
qed

section \<open>Bootstrap\<close>

lemma authFetch_quiet:
  assumes "\<not> profile_unauthorized net s"
  shows "secure_data (snd (authFetch net ''/api/auth/me'' me_init True s)) = secure_data s \<and>
         async_data (snd (authFetch net ''/api/auth/me'' me_init True s)) = async_data s \<and>
         (log (snd (authFetch net ''/api/auth/me'' me_init True s)) = log s \<or>
          (\<exists>a. log (snd (authFetch net ''/api/auth/me'' me_init True s)) =
                 log s @ [first_request ''/api/auth/me'' me_init a s]))"
proof (cases "getTokens s")
  case (Pair x s1)
  have f: "frame s s1" using getTokens_frame [of s] Pair by simp
  then have l: "log s1 = log s" by (simp add: frame_def)
  have st: "secure_data s1 = secure_data s \<and> async_data s1 = async_data s"
    using getTokens_stores [of s] Pair by simp
  show ?thesis
  proof (cases x)
    case (Inl e)
    then show ?thesis using Pair l st by (simp add: authFetch_def)
  next
    case (Inr ar)
    obtain a r where ar: "ar = (a, r)" by (cases ar)
    let ?q = "first_request ''/api/auth/me'' me_init a s1"
    have q: "?q = first_request ''/api/auth/me'' me_init a s"
      using f by (rule first_request_frame)
    show ?thesis
    proof (cases "net (log s1) ?q")
      case Rejected
      then have "authFetch net ''/api/auth/me'' me_init True s =
          (Inl NetworkError, s1\<lparr>log := log s1 @ [?q]\<rparr>)"
        using Pair Inr ar by (simp add: authFetch_def fetch_def)
      then show ?thesis using st l q by auto
    next
      case (Response rp)
      with assms Pair Inr ar have "status rp \<noteq> 401"
        by (simp add: profile_unauthorized_def)
      with Response Pair Inr ar have "authFetch net ''/api/auth/me'' me_init True s =
          (answer rp, s1\<lparr>log := log s1 @ [?q]\<rparr>)"
        using authFetch_unfold [where net = net, of s a r s1 "''/api/auth/me''" me_init rp] by simp
      then show ?thesis using st l q by auto
    qed
  qed
qed

lemma me_not_refresh: "first_request ''/api/auth/me'' me_init a s \<noteq> refresh_request rt s'"
  by (simp add: first_request_def refresh_request_def me_init_def)

lemma bootstrap_state:
  "bootstrap net s =
     (snd (authFetch net ''/api/auth/me'' me_init True s))
       \<lparr>user := (case fst (authFetch net ''/api/auth/me'' me_init True s) of
                   Inl e \<Rightarrow> None | Inr d \<Rightarrow> j_user d),
        loading := False\<rparr>"
  by (cases "authFetch net ''/api/auth/me'' me_init True s")
    (auto simp: bootstrap_def refreshProfile_def apiMe_def split: sum.splits)

lemma apiMe_fst:
  "fst (apiMe net s) = Inl e \<Longrightarrow> fst (authFetch net ''/api/auth/me'' me_init True s) = Inl e"
  by (cases "authFetch net ''/api/auth/me'' me_init True s")
    (auto simp: apiMe_def split: sum.splits)

lemma authFetch_refreshes:
  assumes gt: "getTokens s = (Inr (a, Some rt), s1)" and rt: "rt \<noteq> []"
    and fl: "refreshInFlight s = None" and un: "profile_unauthorized net s"
  shows "\<exists>rest. log (snd (authFetch net ''/api/auth/me'' me_init True s)) =
           log s @ [first_request ''/api/auth/me'' me_init a s, refresh_request rt s] @ rest"
proof -
  let ?q = "first_request ''/api/auth/me'' me_init a s1"
  let ?s2 = "s1\<lparr>log := log s1 @ [?q]\<rparr>"
  have f: "frame s s1" using getTokens_frame [of s] gt by simp
  then have l: "log s1 = log s" and m: "refreshInFlight s1 = refreshInFlight s"
    by (simp_all add: frame_def)
  have q: "?q = first_request ''/api/auth/me'' me_init a s"
    using f by (rule first_request_frame)
  have q2: "refresh_request rt (s1\<lparr>log := L\<rparr>) = refresh_request rt s" for L
    using f by (simp add: refresh_request_def AUTH_BASE_def frame_def)
  from un gt obtain rp where rp: "net (log s1) ?q = Response rp" "status rp = 401"
    by (auto simp: profile_unauthorized_def split: fetch_result.splits)
  have g2: "getTokens ?s2 = (Inr (a, Some rt), ?s2)"
    using getTokens_idem [OF gt] by (simp add: getTokens_log)
  have lr: "log (snd (refreshAccessToken net ?s2)) = log ?s2 @ [refresh_request rt ?s2]"
    using refresh_settle_frame [of rt _ "?s2\<lparr>log := log ?s2 @ [refresh_request rt ?s2]\<rparr>"] rt fl m
    by (simp add: refreshAccessToken_unfold [OF g2] split: fetch_result.splits)
  obtain x s3 where r: "refreshAccessToken net ?s2 = (x, s3)"
    by (cases "refreshAccessToken net ?s2")
  with lr have l3: "log s3 = log s @ [first_request ''/api/auth/me'' me_init a s, refresh_request rt s]"
    by (simp add: l q q2)
  note u = authFetch_unfold [where net = net, OF gt rp(1)]
  show ?thesis
  proof (cases x)
    case (Inl e)
    then have "log (snd (authFetch net ''/api/auth/me'' me_init True s)) =
        log s @ [first_request ''/api/auth/me'' me_init a s, refresh_request rt s] @ []"
      using rp(2) r l3 by (simp add: u)
    then show ?thesis by blast
  next
    case (Inr n)
    then have "log (snd (authFetch net ''/api/auth/me'' me_init True s)) =
        log s @ [first_request ''/api/auth/me'' me_init a s, refresh_request rt s] @
          [retry_request ?q n]"
      using rp(2) r l3 by (simp add: u)
    then show ?thesis by blast
  qed
qed

text \<open>
  C4, as amended. Bootstrap sets \<^verbatim>\<open>loading\<close> to false in every case and clears the
  profile whenever the profile fetch fails. Unless the profile request is answered
  with 401, both stores are left exactly as they were and nothing is sent besides (at
  most) the profile request, which is no refresh request. When it is answered with
  401, a refresh credential is available and no refresh is in flight, the refresh
  request is sent right after it.
\<close>

theorem bootstrap_behaviour:
  "loading (bootstrap net s) = False \<and>
   (\<forall>e. fst (apiMe net s) = Inl e \<longrightarrow> user (bootstrap net s) = None) \<and>
   (\<not> profile_unauthorized net s \<longrightarrow>
      secure_data (bootstrap net s) = secure_data s \<and>
      async_data (bootstrap net s) = async_data s \<and>
      (log (bootstrap net s) = log s \<or>
       (\<exists>a. log (bootstrap net s) = log s @ [first_request ''/api/auth/me'' me_init a s])) \<and>
      (\<forall>a rt s'. first_request ''/api/auth/me'' me_init a s \<noteq> refresh_request rt s')) \<and>
   (\<forall>a rt s1. profile_unauthorized net s \<and> getTokens s = (Inr (a, Some rt), s1) \<and> rt \<noteq> [] \<and>
        refreshInFlight s = None \<longrightarrow>
      (\<exists>rest. log (bootstrap net s) =
         log s @ [first_request ''/api/auth/me'' me_init a s, refresh_request rt s] @ rest))"
proof -
  have 1: "loading (bootstrap net s) = False" by (simp add: bootstrap_def)
  have 2: "\<forall>e. fst (apiMe net s) = Inl e \<longrightarrow> user (bootstrap net s) = None"
    by (auto simp: bootstrap_state dest: apiMe_fst)
  have 3: "\<not> profile_unauthorized net s \<longrightarrow>
      secure_data (bootstrap net s) = secure_data s \<and>
      async_data (bootstrap net s) = async_data s \<and>
      (log (bootstrap net s) = log s \<or>
       (\<exists>a. log (bootstrap net s) = log s @ [first_request ''/api/auth/me'' me_init a s])) \<and>
      (\<forall>a rt s'. first_request ''/api/auth/me'' me_init a s \<noteq> refresh_request rt s')"
    using authFetch_quiet [of net s] me_not_refresh by (simp add: bootstrap_state)
  have 4: "\<forall>a rt s1. profile_unauthorized net s \<and> getTokens s = (Inr (a, Some rt), s1) \<and> rt \<noteq> [] \<and>
        refreshInFlight s = None \<longrightarrow>
      (\<exists>rest. log (bootstrap net s) =
         log s @ [first_request ''/api/auth/me'' me_init a s, refresh_request rt s] @ rest)"
    using authFetch_refreshes [of s _ _ _ net] by (simp add: bootstrap_state)
  from 1 2 3 4 show ?thesis by blast
qed

lemmas eval_defs =
  bootstrap_def refreshProfile_def apiMe_def authFetch_def refreshAccessToken_def
  getTokens_def load_access_def load_refresh_def fetch_def first_request_def me_init_def
  bearer_def json_headers_def refresh_request_def AUTH_BASE_def refresh_settle_def
  refresh_reject_def refresh_accept_def setTokens_def persist_def
  getItem_def setItem_def deleteItem_def
  AsyncStorage_getItem_def AsyncStorage_setItem_def AsyncStorage_removeItem_def
  parsed_def ok_def empty_json_def ACCESS_KEY_def REFRESH_KEY_def

theorem bootstrap_behaviour_witness:
  "\<not> profile_unauthorized offline signed_in_web \<and>
   fst (apiMe offline signed_in_web) = Inl NetworkError \<and>
   user (bootstrap offline signed_in_web) = None \<and>
   async_data (bootstrap offline signed_in_web) = async_data signed_in_web \<and>
   profile_unauthorized denying cold_start \<and>
   getTokens cold_start =
     (Inr (None, Some ''r1''), cold_start\<lparr>accessTokenMem := None, refreshTokenMem := Some ''r1''\<rparr>) \<and>
   refreshInFlight cold_start = None \<and>
   (\<exists>rest. log (bootstrap denying cold_start) =
      log cold_start @ [first_request ''/api/auth/me'' me_init None cold_start,
                        refresh_request ''r1'' cold_start] @ rest)"
proof -
  have h1: "\<not> profile_unauthorized offline signed_in_web"
    by (simp add: profile_unauthorized_def offline_def getTokens_def load_access_def
        load_refresh_def signed_in_web_def)
  have h2: "fst (apiMe offline signed_in_web) = Inl NetworkError"
    by (simp add: apiMe_def authFetch_def fetch_def offline_def getTokens_def load_access_def
        load_refresh_def signed_in_web_def)
  have h3: "getTokens cold_start =
     (Inr (None, Some ''r1''), cold_start\<lparr>accessTokenMem := None, refreshTokenMem := Some ''r1''\<rparr>)"
    by (simp add: getTokens_def load_access_def load_refresh_def getItem_def
        AsyncStorage_getItem_def ACCESS_KEY_def REFRESH_KEY_def cold_start_def)
  have h4: "profile_unauthorized denying cold_start"
    by (simp add: profile_unauthorized_def h3 denying_def)
  have h5: "refreshInFlight cold_start = None" by (simp add: cold_start_def)
  have h6: "''r1'' \<noteq> []" by simp
  note T = bootstrap_behaviour [of offline signed_in_web]
  note U = bootstrap_behaviour [of denying cold_start]
  from T h1 h2 have a: "user (bootstrap offline signed_in_web) = None \<and>
      async_data (bootstrap offline signed_in_web) = async_data signed_in_web" by blast
  from U h3 h4 h5 h6 have b: "\<exists>rest. log (bootstrap denying cold_start) =
      log cold_start @ [first_request ''/api/auth/me'' me_init None cold_start,
                        refresh_request ''r1'' cold_start] @ rest" by blast
  from a b h1 h2 h3 h4 h5 show ?thesis by blast
qed

text \<open>
  C4 as stated fails: launched with no access token and a stored refresh token,
  against a backend that answers 401, bootstrap sends a refresh request and ends with
  the stored refresh token deleted.
\<close>

theorem bootstrap_refreshes_counterexample:
  "accessTokenMem cold_start = None \<and>
   async_data cold_start ''accessToken'' = None \<and>
   async_data cold_start ''refreshToken'' = Some ''r1'' \<and>
   log (bootstrap denying cold_start) =
     [first_request ''/api/auth/me'' me_init None cold_start,
      refresh_request ''r1'' cold_start] \<and>
   async_data (bootstrap denying cold_start) ''refreshToken'' = None \<and>
   user (bootstrap denying cold_start) = None"
  by (simp add: eval_defs denying_def cold_start_def)

section \<open>Calls of refreshAccessToken side by side\<close>

lemma extends_refl: "extends bs bs"
  by (simp add: extends_def)

lemma extends_append: "extends bs (bs @ [b])"
  by (simp add: extends_def nth_append)

lemma extends_update:
  assumes "\<forall>r. bs ! p \<noteq> Settled r"
  shows "extends bs (bs[p := b])"
proof -
  have "bs[p := b] ! q = Settled r" if "q < length bs" "bs ! q = Settled r" for q r
  proof -
    from that assms have "q \<noteq> p" by auto
    then show ?thesis using that by simp
  qed
  then show ?thesis by (simp add: extends_def)
qed

lemma attached_mono: "attached bs c \<Longrightarrow> extends bs bs' \<Longrightarrow> attached bs' c"
  by (cases "(bs, c)" rule: attached.cases) (auto simp: extends_def)

lemma list_all_update: "list_all P xs \<Longrightarrow> P c \<Longrightarrow> list_all P (xs[i := c])"
  using set_update_subset_insert [of xs i c] by (auto simp: list_all_iff)

lemma attached_all_mono:
  "list_all (attached bs) cs \<Longrightarrow> extends bs bs' \<Longrightarrow> list_all (attached bs') cs"
  by (auto simp: list_all_iff intro: attached_mono)

lemma sound_call: "sound t \<Longrightarrow> sound (call i t)"
  by (simp add: sound_def call_def list_all_update)

lemma sound_tokens: "sound t \<Longrightarrow> sound (tokens i t)"
  by (auto simp: sound_def tokens_def list_all_update split: prod.splits sum.splits)

lemma sound_create: "sound t \<Longrightarrow> sound (create net i rt t)"
  by (auto simp: sound_def create_def fetch_def intro!: list_all_update
      intro: attached_all_mono extends_append)

lemma sound_test: "sound t \<Longrightarrow> sound (test net i t)"
proof (cases "i < length (callers t)")
  case False
  then show "sound t \<Longrightarrow> sound (test net i t)" by (simp add: test_def)
next
  case True
  assume s: "sound t"
  show "sound (test net i t)"
  proof (cases "callers t ! i")
    case (Read r)
    show ?thesis
    proof (cases "truthy r")
      case False
      then have "test net i t = t\<lparr>callers := (callers t)[i := Done None (Inl NoRefreshToken)]\<rparr>"
        using True Read by (cases r) (simp_all add: test_def)
      then show ?thesis using s by (simp add: sound_def list_all_update)
    next
      case t: True
      then obtain rt where r: "r = Some rt" "rt \<noteq> []" by (cases r) auto
      show ?thesis
      proof (cases "marker t")
        case None
        then have "test net i t = create net i rt t"
          using True Read r by (simp add: test_def)
        then show ?thesis using s by (simp add: sound_create)
      next
        case (Some p)
        then have "test net i t = t\<lparr>callers := (callers t)[i := Joined p]\<rparr>"
          using True Read r by (simp add: test_def)
        then show ?thesis using s Some by (simp add: sound_def list_all_update)
      qed
    qed
  qed (use s True in \<open>simp_all add: test_def\<close>)
qed

lemma sound_bodies:
  assumes "sound t" and "extends (bodies t) bs" and "m = None \<or> m = marker t"
  shows "sound (t\<lparr>base := w, marker := m, bodies := bs\<rparr>)"
  using assms by (auto simp: sound_def extends_def intro: attached_all_mono [of "bodies t"])

lemma sound_set_body:
  assumes "sound t" and "\<forall>r. bodies t ! p \<noteq> Settled r"
  shows "sound (t\<lparr>bodies := (bodies t)[p := b]\<rparr>)"
  using sound_bodies [OF assms(1) extends_update [OF assms(2), of b], where m = "marker t" and w = "base t"]
  by simp

lemma sound_fetched: "sound t \<Longrightarrow> sound (fetched p t)"
  by (cases "bodies t ! p")
    (auto simp: fetched_def intro: sound_set_body split: fetch_result.splits)

lemma sound_json: "sound t \<Longrightarrow> sound (json_read p t)"
  by (cases "bodies t ! p")
    (auto simp: json_read_def intro: sound_set_body split: option.splits)

lemma stored_back_shape:
  "\<exists>bs w m. extends (bodies t) bs \<and> length bs = length (bodies t) \<and>
      (m = None \<or> m = marker t) \<and> log w = log (base t) \<and>
      stored_back p t = t\<lparr>base := w, marker := m, bodies := bs\<rparr>"
proof (cases "p < length (bodies t)")
  case False
  then have "stored_back p t = t\<lparr>base := base t, marker := marker t, bodies := bodies t\<rparr>"
    by (simp add: stored_back_def)
  then show ?thesis using extends_refl by blast
next
  case True
  have l: "log (snd (setTokens x y (base t))) = log (base t)" for x y
    using setTokens_frame [of "base t" x y] by (simp add: frame_def)
  show ?thesis
  proof (cases "bodies t ! p")
    case (Clearing j)
    obtain x w where st: "setTokens None None (base t) = (x, w)"
      by (cases "setTokens None None (base t)")
    then have lw: "log w = log (base t)" using l [of None None] by simp
    have e: "extends (bodies t) ((bodies t)[p := b])" for b
      using Clearing by (intro extends_update) simp
    show ?thesis
    proof (cases x)
      case (Inl err)
      then have "stored_back p t =
          t\<lparr>base := w, marker := marker t, bodies := (bodies t)[p := Settled (Inl err)]\<rparr>"
        using True Clearing st by (simp add: stored_back_def)
      with e lw show ?thesis by (metis length_list_update)
    next
      case (Inr u)
      then have "stored_back p t =
          t\<lparr>base := w, marker := None,
            bodies := (bodies t)[p := Settled (Inl (Unauthorized 401 j))]\<rparr>"
        using True Clearing st by (simp add: stored_back_def)
      with e lw show ?thesis by (metis length_list_update)
    qed
  next
    case (Saving a rt)
    obtain x w where st: "setTokens (Some a) (Some rt) (base t) = (x, w)"
      by (cases "setTokens (Some a) (Some rt) (base t)")
    then have lw: "log w = log (base t)" using l [of "Some a" "Some rt"] by simp
    have e: "extends (bodies t) ((bodies t)[p := b])" for b
      using Saving by (intro extends_update) simp
    show ?thesis
    proof (cases x)
      case (Inl err)
      then have "stored_back p t =
          t\<lparr>base := w, marker := marker t, bodies := (bodies t)[p := Settled (Inl err)]\<rparr>"
        using True Saving st by (simp add: stored_back_def)
      with e lw show ?thesis by (metis length_list_update)
    next
      case (Inr u)
      then have "stored_back p t =
          t\<lparr>base := w, marker := None, bodies := (bodies t)[p := Settled (Inr a)]\<rparr>"
        using True Saving st by (simp add: stored_back_def)
      with e lw show ?thesis by (metis length_list_update)
    qed
  next
    case (Fetching x y)
    then have "stored_back p t = t\<lparr>base := base t, marker := marker t, bodies := bodies t\<rparr>"
      by (simp add: stored_back_def)
    then show ?thesis using extends_refl by blast
  next
    case (Reading x y)
    then have "stored_back p t = t\<lparr>base := base t, marker := marker t, bodies := bodies t\<rparr>"
      by (simp add: stored_back_def)
    then show ?thesis using extends_refl by blast
  next
    case (Settled x)
    then have "stored_back p t = t\<lparr>base := base t, marker := marker t, bodies := bodies t\<rparr>"
      by (simp add: stored_back_def)
    then show ?thesis using extends_refl by blast
  qed
qed

lemma sound_stored: "sound t \<Longrightarrow> sound (stored_back p t)"
  using stored_back_shape [of t p] sound_bodies [of t] by metis

lemma sound_resume: "sound t \<Longrightarrow> sound (resume i t)"
  by (auto simp: sound_def resume_def list_all_update split: caller.splits body.splits)

lemma sound_step: "sound t \<Longrightarrow> sound (step net e t)"
  by (cases e) (simp_all add: sound_call sound_tokens sound_test sound_fetched sound_json
      sound_stored sound_resume)

lemma sound_run: "sound t \<Longrightarrow> sound (run net es t)"
  unfolding run_def by (induction es arbitrary: t) (simp_all add: sound_step)

lemma sound_start: "sound (start n w)"
  by (simp add: sound_def start_def list_all_iff)

lemma waiters_share:
  assumes "i < length (callers (run net es (start n w)))"
    and "callers (run net es (start n w)) ! i = Done (Some p) r"
  shows "p < length (bodies (run net es (start n w))) \<and>
         bodies (run net es (start n w)) ! p = Settled r"
proof -
  have "sound (run net es (start n w))" by (intro sound_run sound_start)
  then have "list_all (attached (bodies (run net es (start n w)))) (callers (run net es (start n w)))"
    by (simp add: sound_def)
  with assms(1) have "attached (bodies (run net es (start n w))) (callers (run net es (start n w)) ! i)"
    by (simp add: list_all_length)
  with assms(2) show ?thesis by simp
qed















lemma length_call: "length (callers (call i t)) = length (callers t)"
  by (simp add: call_def)

lemma length_tokens: "length (callers (tokens i t)) = length (callers t)"
  by (simp add: tokens_def split: prod.splits sum.splits)

lemma length_test: "length (callers (test net i t)) = length (callers t)"
  by (simp add: test_def create_def fetch_def split: caller.splits option.splits)

lemma length_fetched: "length (callers (fetched p t)) = length (callers t)"
  by (simp add: fetched_def split: body.splits fetch_result.splits)

lemma length_json: "length (callers (json_read p t)) = length (callers t)"
  by (simp add: json_read_def split: body.splits option.splits)

lemma length_stored: "length (callers (stored_back p t)) = length (callers t)"
  by (simp add: stored_back_def split: body.splits prod.splits sum.splits)

lemma length_resume: "length (callers (resume i t)) = length (callers t)"
  by (simp add: resume_def split: caller.splits body.splits)

lemma length_step: "length (callers (step net e t)) = length (callers t)"
  by (cases e) (simp_all add: length_call length_tokens length_test length_fetched length_json
      length_stored length_resume)

lemma length_run: "length (callers (run net es t)) = length (callers t)"
  unfolding run_def by (induction es arbitrary: t) (simp_all add: length_step)


















lemmas run_defs = run_def start_def call_def tokens_def test_def create_def fetched_def
  json_read_def stored_back_def resume_def staggered_def together_def finish_def alone_def
  getTokens_def load_access_def load_refresh_def fetch_def
  refresh_request_def AUTH_BASE_def setTokens_def persist_def
  getItem_def setItem_def deleteItem_def
  AsyncStorage_getItem_def AsyncStorage_setItem_def AsyncStorage_removeItem_def
  parsed_def ok_def empty_json_def ACCESS_KEY_def REFRESH_KEY_def
  numeral_3_eq_3 numeral_2_eq_2



lemma marker_idle: "refreshInFlight s = None \<Longrightarrow> s\<lparr>refreshInFlight := None\<rparr> = s"
proof -
  assume "refreshInFlight s = None"
  then have "s\<lparr>refreshInFlight := None\<rparr> = s\<lparr>refreshInFlight := refreshInFlight s\<rparr>" by simp
  then show ?thesis by simp
qed

lemmas act_defs = call_def tokens_def test_def create_def fetched_def json_read_def
  stored_back_def resume_def

lemma run_alone:
  assumes m: "refreshInFlight w = None"
  shows "base (run net alone (start 1 w)) = snd (refreshAccessToken net w) \<and>
         marker (run net alone (start 1 w)) = None \<and>
         (\<exists>q. callers (run net alone (start 1 w)) = [Done q (fst (refreshAccessToken net w))])"
proof (cases "getTokens w")
  case (Pair x w1)
  have f: "frame w w1" using getTokens_frame [of w] Pair by simp
  then have m1: "refreshInFlight w1 = None" using m by (simp add: frame_def)
  show ?thesis
  proof (cases x)
    case (Inl e)
    then show ?thesis using Pair
      by (simp add: run_def alone_def start_def act_defs refreshAccessToken_def)
  next
    case (Inr ar)
    obtain a r where ar: "ar = (a, r)" by (cases ar)
    note gt = Pair [unfolded Inr ar]
    show ?thesis
    proof (cases "truthy r")
      case False
      then show ?thesis using gt
        by (cases r) (simp_all add: run_def alone_def start_def act_defs refreshAccessToken_def)
    next
      case True
      then obtain rt where r: "r = Some rt" "rt \<noteq> []" by (cases r) auto
      let ?q = "refresh_request rt w1"
      let ?w2 = "w1\<lparr>log := log w1 @ [?q]\<rparr>"
      have m2: "refreshInFlight ?w2 = None" using m1 by simp
      show ?thesis
      proof (cases "net (log w1) ?q")
        case Rejected
        then show ?thesis using gt r m1 marker_idle [OF m2]
          by (simp add: run_def alone_def start_def act_defs refreshAccessToken_def fetch_def)
      next
        case (Response rp)
        have s0: "refreshAccessToken net w = refresh_settle rt rp ?w2"
          using gt r m1 Response by (simp add: refreshAccessToken_def fetch_def)
        have fr: "refreshInFlight (snd (setTokens x y ?w2)) = None" for x y
          using setTokens_frame [of ?w2 x y] m2 by (simp add: frame_def)
        show ?thesis
        proof (cases "ok rp \<and> truthy (j_accessToken (parsed rp))")
          case True
          then obtain n where n: "j_accessToken (parsed rp) = Some n" "n \<noteq> []" "ok rp"
            by (cases "j_accessToken (parsed rp)") auto
          obtain y w3 where st: "setTokens (Some n) (Some rt) ?w2 = (y, w3)"
            by (cases "setTokens (Some n) (Some rt) ?w2")
          have "refreshInFlight w3 = None" using fr [of "Some n" "Some rt"] st by simp
          then have c: "w3\<lparr>refreshInFlight := None\<rparr> = w3" by (rule marker_idle)
          have s1: "refreshAccessToken net w = (case y of Inl e \<Rightarrow> Inl e | Inr u \<Rightarrow> Inr n, w3)"
            using n st c by (simp add: s0 refresh_settle_def refresh_accept_def split: sum.splits)
          show ?thesis using gt r m1 Response n st
            by (cases y)
              (simp_all add: s1 run_def alone_def start_def act_defs fetch_def)
        next
          case False
          obtain y w3 where st: "setTokens None None ?w2 = (y, w3)"
            by (cases "setTokens None None ?w2")
          have "refreshInFlight w3 = None" using fr [of None None] st by simp
          then have c: "w3\<lparr>refreshInFlight := None\<rparr> = w3" by (rule marker_idle)
          have s1: "refreshAccessToken net w =
              (case y of Inl e \<Rightarrow> Inl e | Inr u \<Rightarrow> Inl (Unauthorized 401 (parsed rp)), w3)"
            using False st c
            by (auto simp: s0 refresh_settle_def refresh_reject_def split: sum.splits option.splits)
          have j: "json_read 0 \<lparr>base = ?w2, marker = Some 0, bodies = [Reading rt rp],
                callers = [Owner 0]\<rparr> =
              \<lparr>base = ?w2, marker = Some 0, bodies = [Clearing (parsed rp)], callers = [Owner 0]\<rparr>"
            using False by (auto simp: json_read_def split: option.splits)
          show ?thesis using gt r m1 Response st
            by (cases y)
              (simp_all add: s1 j run_def alone_def start_def call_def tokens_def test_def create_def
                fetched_def stored_back_def resume_def fetch_def)
        qed
      qed
    qed
  qed
qed


lemma setTokens_clear:
  "setTokens None None s =
     (if secure_out s then
        (if async_rejects s then
           (Inl StorageError, s\<lparr>accessTokenMem := None, refreshTokenMem := None\<rparr>)
         else
           (Inr (), s\<lparr>accessTokenMem := None, refreshTokenMem := None,
                       async_data := (async_data s)(ACCESS_KEY := None, REFRESH_KEY := None)\<rparr>))
      else
        (Inr (), s\<lparr>accessTokenMem := None, refreshTokenMem := None,
                    secure_data := (secure_data s)(ACCESS_KEY := None, REFRESH_KEY := None)\<rparr>))"
  by (simp add: setTokens_def persist_def storage_char secure_out_iff [symmetric])

lemma setTokens_save:
  assumes "n \<noteq> []" and "rt \<noteq> []"
  shows "setTokens (Some n) (Some rt) s =
     (if secure_out s then
        (if async_rejects s then
           (Inl StorageError, s\<lparr>accessTokenMem := Some n, refreshTokenMem := Some rt\<rparr>)
         else
           (Inr (), s\<lparr>accessTokenMem := Some n, refreshTokenMem := Some rt,
                       async_data := (async_data s)(ACCESS_KEY \<mapsto> n, REFRESH_KEY \<mapsto> rt)\<rparr>))
      else
        (Inr (), s\<lparr>accessTokenMem := Some n, refreshTokenMem := Some rt,
                    secure_data := (secure_data s)(ACCESS_KEY \<mapsto> n, REFRESH_KEY \<mapsto> rt)\<rparr>))"
  using assms by (simp add: setTokens_def persist_def storage_char secure_out_iff [symmetric])

lemma secure_out_upd [simp]:
  "secure_out (s\<lparr>accessTokenMem := a\<rparr>) = secure_out s"
  "secure_out (s\<lparr>refreshTokenMem := r\<rparr>) = secure_out s"
  "secure_out (s\<lparr>log := l\<rparr>) = secure_out s"
  by (simp_all add: secure_out_def)

lemma getTokens_shape:
  assumes "getTokens s = (Inr (a, r), s1)"
  shows "s1 = s\<lparr>accessTokenMem := a, refreshTokenMem := r\<rparr>"
  using assms by (auto simp: getTokens_char split: sum.splits)

lemma refresh_saved:
  assumes gt: "getTokens s = (Inr (a, Some rt), s1)" and rt: "rt \<noteq> []"
    and m: "refreshInFlight s = None"
    and rp: "net (log s1) (refresh_request rt s1) = Response rp"
    and acc: "ok rp" "j_accessToken (parsed rp) = Some n" "n \<noteq> []"
  shows "(secure_out s \<and> \<not> async_rejects s \<longrightarrow>
            refreshAccessToken net s =
              (Inr n, s1\<lparr>log := log s1 @ [refresh_request rt s1],
                          accessTokenMem := Some n, refreshTokenMem := Some rt,
                          async_data := (async_data s)(ACCESS_KEY \<mapsto> n, REFRESH_KEY \<mapsto> rt)\<rparr>)) \<and>
         (\<not> secure_out s \<longrightarrow>
            refreshAccessToken net s =
              (Inr n, s1\<lparr>log := log s1 @ [refresh_request rt s1],
                          accessTokenMem := Some n, refreshTokenMem := Some rt,
                          secure_data := (secure_data s)(ACCESS_KEY \<mapsto> n, REFRESH_KEY \<mapsto> rt)\<rparr>))"
proof -
  note s1 = getTokens_shape [OF gt]
  have m1: "refreshInFlight s1 = None" using m by (simp add: s1)
  let ?s2 = "s1\<lparr>log := log s1 @ [refresh_request rt s1]\<rparr>"
  have u: "refreshAccessToken net s = refresh_accept n rt ?s2"
    using refreshAccessToken_unfold [OF gt, of net] rt m1 rp acc
    by (simp add: refresh_settle_def)
  have o: "secure_out s1 = secure_out s" "async_rejects s1 = async_rejects s"
    "async_data s1 = async_data s" "secure_data s1 = secure_data s"
    by (simp_all add: s1)
  have c: "x\<lparr>refreshInFlight := None\<rparr> = x" if "refreshInFlight x = None" for x :: world
    using that by (rule marker_idle)
  show ?thesis
  proof (cases "secure_out s")
    case True
    show ?thesis
    proof (cases "async_rejects s")
      case False
      have "setTokens (Some n) (Some rt) ?s2 =
          (Inr (), ?s2\<lparr>accessTokenMem := Some n, refreshTokenMem := Some rt,
                       async_data := (async_data s)(ACCESS_KEY \<mapsto> n, REFRESH_KEY \<mapsto> rt)\<rparr>)"
        using True False by (simp add: setTokens_save [OF acc(3) rt] o)
      then show ?thesis using True False m1 by (simp add: u refresh_accept_def c)
    qed (use True in simp)
  next
    case False
    have "setTokens (Some n) (Some rt) ?s2 =
          (Inr (), ?s2\<lparr>accessTokenMem := Some n, refreshTokenMem := Some rt,
                       secure_data := (secure_data s)(ACCESS_KEY \<mapsto> n, REFRESH_KEY \<mapsto> rt)\<rparr>)"
      using False by (simp add: setTokens_save [OF acc(3) rt] o)
    then show ?thesis using False m1 by (simp add: u refresh_accept_def c)
  qed
qed

lemma refresh_cleared:
  assumes gt: "getTokens s = (Inr (a, Some rt), s1)" and rt: "rt \<noteq> []"
    and m: "refreshInFlight s = None"
    and rp: "net (log s1) (refresh_request rt s1) = Response rp"
    and rej: "\<not> (ok rp \<and> truthy (j_accessToken (parsed rp)))"
  shows "(secure_out s \<and> \<not> async_rejects s \<longrightarrow>
            refreshAccessToken net s =
              (Inl (Unauthorized 401 (parsed rp)),
               s1\<lparr>log := log s1 @ [refresh_request rt s1],
                   accessTokenMem := None, refreshTokenMem := None,
                   async_data := (async_data s)(ACCESS_KEY := None, REFRESH_KEY := None)\<rparr>)) \<and>
         (\<not> secure_out s \<longrightarrow>
            refreshAccessToken net s =
              (Inl (Unauthorized 401 (parsed rp)),
               s1\<lparr>log := log s1 @ [refresh_request rt s1],
                   accessTokenMem := None, refreshTokenMem := None,
                   secure_data := (secure_data s)(ACCESS_KEY := None, REFRESH_KEY := None)\<rparr>))"
proof -
  note s1 = getTokens_shape [OF gt]
  have m1: "refreshInFlight s1 = None" using m by (simp add: s1)
  let ?s2 = "s1\<lparr>log := log s1 @ [refresh_request rt s1]\<rparr>"
  have u: "refreshAccessToken net s = refresh_reject (parsed rp) ?s2"
    using refreshAccessToken_unfold [OF gt, of net] rt m1 rp rej
    by (auto simp: refresh_settle_def split: option.splits)
  have o: "secure_out s1 = secure_out s" "async_rejects s1 = async_rejects s"
    "async_data s1 = async_data s" "secure_data s1 = secure_data s"
    by (simp_all add: s1)
  have c: "x\<lparr>refreshInFlight := None\<rparr> = x" if "refreshInFlight x = None" for x :: world
    using that by (rule marker_idle)
  show ?thesis
  proof (cases "secure_out s")
    case True
    show ?thesis
    proof (cases "async_rejects s")
      case False
      have "setTokens None None ?s2 =
          (Inr (), ?s2\<lparr>accessTokenMem := None, refreshTokenMem := None,
                       async_data := (async_data s)(ACCESS_KEY := None, REFRESH_KEY := None)\<rparr>)"
        using True False by (simp add: setTokens_clear o)
      then show ?thesis using True False m1 by (simp add: u refresh_reject_def c)
    qed (use True in simp)
  next
    case False
    have "setTokens None None ?s2 =
          (Inr (), ?s2\<lparr>accessTokenMem := None, refreshTokenMem := None,
                       secure_data := (secure_data s)(ACCESS_KEY := None, REFRESH_KEY := None)\<rparr>)"
      using False by (simp add: setTokens_clear o)
    then show ?thesis using False m1 by (simp add: u refresh_reject_def c)
  qed
qed

text \<open>
  C3, as amended. For a call of \<^verbatim>\<open>refreshAccessToken\<close> that finds no refresh in flight,
  given the tokens it reads first. Without a refresh credential it fails with "No
  refresh token" and changes nothing more. If the refresh request gets no response,
  it fails with the network error and changes nothing but the record of the request.
  If the backend answers 2xx with a non-empty access token, that token is returned
  and is written, together with the refresh credential the call started with
  (whatever else the answer holds), into memory and into the one store that the call
  reaches: the generic store when the secure store is unavailable or rejecting and
  the generic store accepts the write, the secure store when it serves the call. If
  the backend answers anything else, both credentials are removed from memory and
  from that one store, and the error carries status 401 and the parsed body. In both
  cases nothing else changes, the other store included (the two cases are stated for
  a store that accepts the write). This is also what one call
  does that runs alone among the calls side by side; and there, under every schedule,
  a call that has settled after following a promise (as the call that created it or as
  one that returned it at line 52) has the outcome that promise settled with.
\<close>

theorem refresh_outcome:
  assumes gt: "getTokens s = (Inr (a, r), s1)" and m: "refreshInFlight s = None"
  shows
   "(\<not> truthy r \<longrightarrow> refreshAccessToken net s = (Inl NoRefreshToken, s1)) \<and>
    (\<forall>rt. r = Some rt \<and> rt \<noteq> [] \<longrightarrow>
       (net (log s1) (refresh_request rt s1) = Rejected \<longrightarrow>
          refreshAccessToken net s =
            (Inl NetworkError, s1\<lparr>log := log s1 @ [refresh_request rt s1]\<rparr>)) \<and>
       (\<forall>rp n. net (log s1) (refresh_request rt s1) = Response rp \<and>
           ok rp \<and> j_accessToken (parsed rp) = Some n \<and> n \<noteq> [] \<longrightarrow>
           (secure_out s \<and> \<not> async_rejects s \<longrightarrow>
              refreshAccessToken net s =
                (Inr n, s1\<lparr>log := log s1 @ [refresh_request rt s1],
                            accessTokenMem := Some n, refreshTokenMem := Some rt,
                            async_data := (async_data s)(ACCESS_KEY \<mapsto> n, REFRESH_KEY \<mapsto> rt)\<rparr>)) \<and>
           (\<not> secure_out s \<longrightarrow>
              refreshAccessToken net s =
                (Inr n, s1\<lparr>log := log s1 @ [refresh_request rt s1],
                            accessTokenMem := Some n, refreshTokenMem := Some rt,
                            secure_data := (secure_data s)(ACCESS_KEY \<mapsto> n, REFRESH_KEY \<mapsto> rt)\<rparr>))) \<and>
       (\<forall>rp. net (log s1) (refresh_request rt s1) = Response rp \<and>
           \<not> (ok rp \<and> truthy (j_accessToken (parsed rp))) \<longrightarrow>
           (secure_out s \<and> \<not> async_rejects s \<longrightarrow>
              refreshAccessToken net s =
                (Inl (Unauthorized 401 (parsed rp)),
                 s1\<lparr>log := log s1 @ [refresh_request rt s1],
                     accessTokenMem := None, refreshTokenMem := None,
                     async_data := (async_data s)(ACCESS_KEY := None, REFRESH_KEY := None)\<rparr>)) \<and>
           (\<not> secure_out s \<longrightarrow>
              refreshAccessToken net s =
                (Inl (Unauthorized 401 (parsed rp)),
                 s1\<lparr>log := log s1 @ [refresh_request rt s1],
                     accessTokenMem := None, refreshTokenMem := None,
                     secure_data := (secure_data s)(ACCESS_KEY := None, REFRESH_KEY := None)\<rparr>)))) \<and>
    base (run net alone (start 1 s)) = snd (refreshAccessToken net s) \<and>
    (\<exists>q. callers (run net alone (start 1 s)) = [Done q (fst (refreshAccessToken net s))]) \<and>
    (\<forall>i p x. i < k \<and> callers (run net es (start k w)) ! i = Done (Some p) x \<longrightarrow>
       p < length (bodies (run net es (start k w))) \<and>
       bodies (run net es (start k w)) ! p = Settled x)"
proof -
  have f: "frame s s1" using getTokens_frame [of s] gt by simp
  then have m1: "refreshInFlight s1 = None" using m by (simp add: frame_def)
  have 1: "\<not> truthy r \<longrightarrow> refreshAccessToken net s = (Inl NoRefreshToken, s1)"
    using gt by (cases r) (auto simp: refreshAccessToken_def)
  have 2: "net (log s1) (refresh_request rt s1) = Rejected \<longrightarrow>
          refreshAccessToken net s =
            (Inl NetworkError, s1\<lparr>log := log s1 @ [refresh_request rt s1]\<rparr>)"
    if "r = Some rt \<and> rt \<noteq> []" for rt
    using refreshAccessToken_unfold [OF gt, of net] that m1 by simp
  have 3: "\<forall>rp n. net (log s1) (refresh_request rt s1) = Response rp \<and>
           ok rp \<and> j_accessToken (parsed rp) = Some n \<and> n \<noteq> [] \<longrightarrow>
           (secure_out s \<and> \<not> async_rejects s \<longrightarrow>
              refreshAccessToken net s =
                (Inr n, s1\<lparr>log := log s1 @ [refresh_request rt s1],
                            accessTokenMem := Some n, refreshTokenMem := Some rt,
                            async_data := (async_data s)(ACCESS_KEY \<mapsto> n, REFRESH_KEY \<mapsto> rt)\<rparr>)) \<and>
           (\<not> secure_out s \<longrightarrow>
              refreshAccessToken net s =
                (Inr n, s1\<lparr>log := log s1 @ [refresh_request rt s1],
                            accessTokenMem := Some n, refreshTokenMem := Some rt,
                            secure_data := (secure_data s)(ACCESS_KEY \<mapsto> n, REFRESH_KEY \<mapsto> rt)\<rparr>))"
    if "r = Some rt \<and> rt \<noteq> []" for rt
  proof (intro allI impI)
    fix rp n
    assume h: "net (log s1) (refresh_request rt s1) = Response rp \<and>
           ok rp \<and> j_accessToken (parsed rp) = Some n \<and> n \<noteq> []"
    from that gt have g: "getTokens s = (Inr (a, Some rt), s1)" by simp
    from h have h1: "net (log s1) (refresh_request rt s1) = Response rp" and h2: "ok rp"
      and h3: "j_accessToken (parsed rp) = Some n" and h4: "n \<noteq> []" by simp_all
    from that have rt: "rt \<noteq> []" by simp
    show "(secure_out s \<and> \<not> async_rejects s \<longrightarrow>
              refreshAccessToken net s =
                (Inr n, s1\<lparr>log := log s1 @ [refresh_request rt s1],
                            accessTokenMem := Some n, refreshTokenMem := Some rt,
                            async_data := (async_data s)(ACCESS_KEY \<mapsto> n, REFRESH_KEY \<mapsto> rt)\<rparr>)) \<and>
           (\<not> secure_out s \<longrightarrow>
              refreshAccessToken net s =
                (Inr n, s1\<lparr>log := log s1 @ [refresh_request rt s1],
                            accessTokenMem := Some n, refreshTokenMem := Some rt,
                            secure_data := (secure_data s)(ACCESS_KEY \<mapsto> n, REFRESH_KEY \<mapsto> rt)\<rparr>))"
      by (rule refresh_saved [where net = net, OF g rt m h1 h2 h3 h4])
  qed
  have 4: "\<forall>rp. net (log s1) (refresh_request rt s1) = Response rp \<and>
           \<not> (ok rp \<and> truthy (j_accessToken (parsed rp))) \<longrightarrow>
           (secure_out s \<and> \<not> async_rejects s \<longrightarrow>
              refreshAccessToken net s =
                (Inl (Unauthorized 401 (parsed rp)),
                 s1\<lparr>log := log s1 @ [refresh_request rt s1],
                     accessTokenMem := None, refreshTokenMem := None,
                     async_data := (async_data s)(ACCESS_KEY := None, REFRESH_KEY := None)\<rparr>)) \<and>
           (\<not> secure_out s \<longrightarrow>
              refreshAccessToken net s =
                (Inl (Unauthorized 401 (parsed rp)),
                 s1\<lparr>log := log s1 @ [refresh_request rt s1],
                     accessTokenMem := None, refreshTokenMem := None,
                     secure_data := (secure_data s)(ACCESS_KEY := None, REFRESH_KEY := None)\<rparr>))"
    if "r = Some rt \<and> rt \<noteq> []" for rt
  proof (intro allI impI)
    fix rp
    assume h: "net (log s1) (refresh_request rt s1) = Response rp \<and>
           \<not> (ok rp \<and> truthy (j_accessToken (parsed rp)))"
    from that gt have g: "getTokens s = (Inr (a, Some rt), s1)" by simp
    from h have h1: "net (log s1) (refresh_request rt s1) = Response rp"
      and h2: "\<not> (ok rp \<and> truthy (j_accessToken (parsed rp)))" by simp_all
    from that have rt: "rt \<noteq> []" by simp
    show "(secure_out s \<and> \<not> async_rejects s \<longrightarrow>
              refreshAccessToken net s =
                (Inl (Unauthorized 401 (parsed rp)),
                 s1\<lparr>log := log s1 @ [refresh_request rt s1],
                     accessTokenMem := None, refreshTokenMem := None,
                     async_data := (async_data s)(ACCESS_KEY := None, REFRESH_KEY := None)\<rparr>)) \<and>
           (\<not> secure_out s \<longrightarrow>
              refreshAccessToken net s =
                (Inl (Unauthorized 401 (parsed rp)),
                 s1\<lparr>log := log s1 @ [refresh_request rt s1],
                     accessTokenMem := None, refreshTokenMem := None,
                     secure_data := (secure_data s)(ACCESS_KEY := None, REFRESH_KEY := None)\<rparr>))"
      by (rule refresh_cleared [where net = net, OF g rt m h1 h2])
  qed
  note 5 = run_alone [OF m, of net]
  have 6: "\<forall>i p x. i < k \<and> callers (run net es (start k w)) ! i = Done (Some p) x \<longrightarrow>
       p < length (bodies (run net es (start k w))) \<and>
       bodies (run net es (start k w)) ! p = Settled x"
  proof (intro allI impI)
    fix i p x
    assume h: "i < k \<and> callers (run net es (start k w)) ! i = Done (Some p) x"
    then have a: "i < length (callers (run net es (start k w)))"
      and b: "callers (run net es (start k w)) ! i = Done (Some p) x"
      by (simp_all add: length_run start_def)
    show "p < length (bodies (run net es (start k w))) \<and>
       bodies (run net es (start k w)) ! p = Settled x"
      using a b by (rule waiters_share)
  qed
  from 1 2 3 4 5 6 show ?thesis by blast
qed

theorem refresh_outcome_witness:
  "getTokens signed_in_web = (Inr (Some ''a1'', Some ''r1''), signed_in_web) \<and>
   refreshInFlight signed_in_web = None \<and>
   renewing (log signed_in_web) (refresh_request ''r1'' signed_in_web) =
     Response \<lparr>status = 200, body_json = Some (empty_json\<lparr>j_accessToken := Some ''a2''\<rparr>)\<rparr> \<and>
   secure_out signed_in_web \<and> \<not> async_rejects signed_in_web \<and>
   refreshAccessToken renewing signed_in_web =
     (Inr ''a2'',
      signed_in_web\<lparr>log := log signed_in_web @ [refresh_request ''r1'' signed_in_web],
                     accessTokenMem := Some ''a2'', refreshTokenMem := Some ''r1'',
                     async_data := (async_data signed_in_web)
                       (ACCESS_KEY \<mapsto> ''a2'', REFRESH_KEY \<mapsto> ''r1'')\<rparr>) \<and>
   callers (run renewing (together @ finish) (start 3 cold_start)) ! 1 =
     Done (Some 0) (Inr ''a2'') \<and>
   bodies (run renewing (together @ finish) (start 3 cold_start)) ! 0 = Settled (Inr ''a2'')"
proof -
  let ?rp = "\<lparr>status = 200, body_json = Some (empty_json\<lparr>j_accessToken := Some ''a2''\<rparr>)\<rparr>"
  let ?T = "run renewing (together @ finish) (start 3 cold_start)"
  have h1: "getTokens signed_in_web = (Inr (Some ''a1'', Some ''r1''), signed_in_web)"
    by (simp add: getTokens_def load_access_def load_refresh_def signed_in_web_def)
  have h2: "refreshInFlight signed_in_web = None"
    by (simp add: signed_in_web_def)
  have h3: "renewing (log signed_in_web) (refresh_request ''r1'' signed_in_web) = Response ?rp"
    by (simp add: renewing_def refresh_request_def AUTH_BASE_def signed_in_web_def)
  have h4: "secure_out signed_in_web \<and> \<not> async_rejects signed_in_web"
    by (simp add: secure_out_def signed_in_web_def)
  have h5: "ok ?rp \<and> j_accessToken (parsed ?rp) = Some ''a2''"
    by (simp add: ok_def parsed_def empty_json_def)
  have h6: "''r1'' \<noteq> [] \<and> ''a2'' \<noteq> []" by simp
  have h7: "(1::nat) < 3 \<and> callers ?T ! 1 = Done (Some 0) (Inr ''a2'')"
    by (simp add: run_defs renewing_def cold_start_def)
  note R = refresh_outcome [where net = renewing and k = 3 and es = "together @ finish"
      and w = cold_start, OF h1 h2]
  from R h3 h4 h5 h6
  have a: "refreshAccessToken renewing signed_in_web =
     (Inr ''a2'',
      signed_in_web\<lparr>log := log signed_in_web @ [refresh_request ''r1'' signed_in_web],
                     accessTokenMem := Some ''a2'', refreshTokenMem := Some ''r1'',
                     async_data := (async_data signed_in_web)
                       (ACCESS_KEY \<mapsto> ''a2'', REFRESH_KEY \<mapsto> ''r1'')\<rparr>)"
    by blast
  from R h7 have b: "bodies ?T ! 0 = Settled (Inr ''a2'')" by blast
  from a b h1 h2 h3 h4 h7 show ?thesis by blast
qed

text \<open>
  C3 as stated fails. A refresh that cannot reach the backend fails with an error that
  is no authorization failure and clears neither credential, and so does one without
  a refresh credential. On a device whose secure store rejects, a refresh that the
  backend rejects clears the credentials in memory and in the generic store only:
  both are still in the secure store. A refresh token that the backend returns is not
  stored: the one the call started with is. And when the store rejects the write of a
  successful refresh, the call fails with the storage error, with the new access
  token in memory and the old one in the store.
\<close>

theorem refresh_network_failure_counterexample:
  "fst (refreshAccessToken offline signed_in_web) = Inl NetworkError \<and>
   accessTokenMem (snd (refreshAccessToken offline signed_in_web)) = Some ''a1'' \<and>
   refreshTokenMem (snd (refreshAccessToken offline signed_in_web)) = Some ''r1'' \<and>
   async_data (snd (refreshAccessToken offline signed_in_web)) ''accessToken'' = Some ''a1'' \<and>
   async_data (snd (refreshAccessToken offline signed_in_web)) ''refreshToken'' = Some ''r1'' \<and>
   fst (refreshAccessToken renewing fresh_install) = Inl NoRefreshToken \<and>
   fst (refreshAccessToken denying locked_signed_in) = Inl (Unauthorized 401 empty_json) \<and>
   secure_data (snd (refreshAccessToken denying locked_signed_in)) ''accessToken'' = Some ''a1'' \<and>
   secure_data (snd (refreshAccessToken denying locked_signed_in)) ''refreshToken'' = Some ''r1'' \<and>
   fst (refreshAccessToken reissuing signed_in_web) = Inr ''a2'' \<and>
   refreshTokenMem (snd (refreshAccessToken reissuing signed_in_web)) = Some ''r1'' \<and>
   async_data (snd (refreshAccessToken reissuing signed_in_web)) ''refreshToken'' = Some ''r1'' \<and>
   fst (refreshAccessToken renewing storage_down) = Inl StorageError \<and>
   accessTokenMem (snd (refreshAccessToken renewing storage_down)) = Some ''a2'' \<and>
   async_data (snd (refreshAccessToken renewing storage_down)) ''accessToken'' = Some ''a1''"
  by (simp add: refreshAccessToken_def getTokens_def load_access_def load_refresh_def fetch_def
      refresh_settle_def refresh_reject_def refresh_accept_def setTokens_def persist_def
      getItem_def setItem_def deleteItem_def
      AsyncStorage_getItem_def AsyncStorage_setItem_def AsyncStorage_removeItem_def
      SecureStore_getItemAsync_def SecureStore_setItemAsync_def SecureStore_deleteItemAsync_def
      secure_call_fails_def getSecureStore_def
      parsed_def ok_def empty_json_def ACCESS_KEY_def REFRESH_KEY_def
      refresh_request_def AUTH_BASE_def offline_def denying_def reissuing_def renewing_def
      signed_in_web_def locked_signed_in_def fresh_install_def cold_start_def storage_down_def)

section \<open>The artifact cache\<close>

lemma getFlashcards_total: "\<exists>v. fst (getFlashcards parse i s) = Inr v"
  by (simp add: getFlashcards_def AsyncStorage_getItem_def split: option.splits)

lemma getQuiz_total: "\<exists>v. fst (getQuiz parse i s) = Inr v"
  by (simp add: getQuiz_def AsyncStorage_getItem_def split: option.splits)

lemma getFlashcards_char:
  "fst (getFlashcards parse i s) =
     Inr (if async_rejects s then JNull
          else case async_data s (KEY_FC i) of
                 None \<Rightarrow> JNull
               | Some t \<Rightarrow> if t = [] then JNull
                           else (case parse t of None \<Rightarrow> JNull | Some v \<Rightarrow> v))"
  by (simp add: getFlashcards_def AsyncStorage_getItem_def split: option.splits)

lemma getQuiz_char:
  "fst (getQuiz parse i s) =
     Inr (if async_rejects s then JNull
          else case async_data s (KEY_QZ i) of
                 None \<Rightarrow> JNull
               | Some t \<Rightarrow> if t = [] then JNull
                           else (case parse t of None \<Rightarrow> JNull | Some v \<Rightarrow> v))"
  by (simp add: getQuiz_def AsyncStorage_getItem_def split: option.splits)

lemma setFlashcards_char:
  "setFlashcards stringify i items s =
     (Inr (), if async_rejects s then s
              else s\<lparr>async_data := (async_data s)(KEY_FC i \<mapsto> stringify items)\<rparr>)"
  by (simp add: setFlashcards_def AsyncStorage_setItem_def)

lemma setQuiz_char:
  "setQuiz stringify i items s =
     (Inr (), if async_rejects s then s
              else s\<lparr>async_data := (async_data s)(KEY_QZ i \<mapsto> stringify items)\<rparr>)"
  by (simp add: setQuiz_def AsyncStorage_setItem_def)

lemma flashcards_miss:
  "async_data s (KEY_FC i) = None \<Longrightarrow> fst (getFlashcards parse i s) = Inr JNull"
  by (simp add: getFlashcards_def AsyncStorage_getItem_def)

lemma quiz_miss:
  "async_data s (KEY_QZ i) = None \<Longrightarrow> fst (getQuiz parse i s) = Inr JNull"
  by (simp add: getQuiz_def AsyncStorage_getItem_def)

lemma flashcards_corrupt:
  "async_data s (KEY_FC i) = Some raw \<Longrightarrow> parse raw = None \<Longrightarrow>
   fst (getFlashcards parse i s) = Inr JNull"
  by (simp add: getFlashcards_def AsyncStorage_getItem_def)

lemma quiz_corrupt:
  "async_data s (KEY_QZ i) = Some raw \<Longrightarrow> parse raw = None \<Longrightarrow>
   fst (getQuiz parse i s) = Inr JNull"
  by (simp add: getQuiz_def AsyncStorage_getItem_def)

lemma cache_keys: "(KEY_FC i = KEY_FC j) = (i = j)" "(KEY_QZ i = KEY_QZ j) = (i = j)"
  "KEY_FC i \<noteq> KEY_QZ j" "KEY_QZ i \<noteq> KEY_FC j"
  by (simp_all add: KEY_FC_def KEY_QZ_def)

lemma setFlashcards_others:
  "(j \<noteq> i \<longrightarrow> fst (getFlashcards parse j (snd (setFlashcards stringify i items s))) =
                fst (getFlashcards parse j s)) \<and>
   fst (getQuiz parse j (snd (setFlashcards stringify i items s))) = fst (getQuiz parse j s)"
  by (simp add: getFlashcards_char getQuiz_char setFlashcards_char cache_keys)

lemma setQuiz_others:
  "(j \<noteq> i \<longrightarrow> fst (getQuiz parse j (snd (setQuiz stringify i items s))) =
                fst (getQuiz parse j s)) \<and>
   fst (getFlashcards parse j (snd (setQuiz stringify i items s))) = fst (getFlashcards parse j s)"
  by (simp add: getFlashcards_char getQuiz_char setQuiz_char cache_keys)

lemma flashcards_round_trip:
  assumes "\<not> async_rejects s" "parse (stringify items) = Some items"
  shows "fst (getFlashcards parse i (snd (setFlashcards stringify i items s))) =
           Inr (if stringify items = [] then JNull else items)"
  using assms by (simp add: getFlashcards_char setFlashcards_char)

lemma quiz_round_trip:
  assumes "\<not> async_rejects s" "parse (stringify items) = Some items"
  shows "fst (getQuiz parse i (snd (setQuiz stringify i items s))) =
           Inr (if stringify items = [] then JNull else items)"
  using assms by (simp add: getQuiz_char setQuiz_char)

text \<open>
  C7, as amended. When AsyncStorage accepts the calls and \<^verbatim>\<open>JSON.parse\<close> reads the items
  back from their \<^verbatim>\<open>JSON.stringify\<close> text, \<^verbatim>\<open>setFlashcards\<close> then \<^verbatim>\<open>getFlashcards\<close> (and
  \<^verbatim>\<open>setQuiz\<close> then \<^verbatim>\<open>getQuiz\<close>) on the same note returns the items (null, should the text
  be empty). A set on one note and kind leaves what a get returns for every other note
  and for the other kind as it was. A get on a key that holds nothing returns null, a
  get on a key whose text does not parse returns null, and neither a get nor a set
  ever raises.
\<close>

theorem cache_round_trip:
  "(\<not> async_rejects s \<and> parse (stringify items) = Some items \<longrightarrow>
      fst (getFlashcards parse i (snd (setFlashcards stringify i items s))) =
        Inr (if stringify items = [] then JNull else items) \<and>
      fst (getQuiz parse i (snd (setQuiz stringify i items s))) =
        Inr (if stringify items = [] then JNull else items)) \<and>
   (j \<noteq> i \<longrightarrow>
      fst (getFlashcards parse j (snd (setFlashcards stringify i items s))) =
        fst (getFlashcards parse j s) \<and>
      fst (getQuiz parse j (snd (setQuiz stringify i items s))) = fst (getQuiz parse j s)) \<and>
   fst (getQuiz parse j (snd (setFlashcards stringify i items s))) = fst (getQuiz parse j s) \<and>
   fst (getFlashcards parse j (snd (setQuiz stringify i items s))) =
     fst (getFlashcards parse j s) \<and>
   (async_data s (KEY_FC i) = None \<longrightarrow> fst (getFlashcards parse i s) = Inr JNull) \<and>
   (async_data s (KEY_QZ i) = None \<longrightarrow> fst (getQuiz parse i s) = Inr JNull) \<and>
   (\<forall>raw. async_data s (KEY_FC i) = Some raw \<and> parse raw = None \<longrightarrow>
      fst (getFlashcards parse i s) = Inr JNull) \<and>
   (\<forall>raw. async_data s (KEY_QZ i) = Some raw \<and> parse raw = None \<longrightarrow>
      fst (getQuiz parse i s) = Inr JNull) \<and>
   (\<exists>v. fst (getFlashcards parse i s) = Inr v) \<and>
   (\<exists>v. fst (getQuiz parse i s) = Inr v) \<and>
   fst (setFlashcards stringify i items s) = Inr () \<and>
   fst (setQuiz stringify i items s) = Inr ()"
proof -
  have w: "fst (setFlashcards stringify i items s) = Inr () \<and>
      fst (setQuiz stringify i items s) = Inr ()"
    by (simp add: setFlashcards_def setQuiz_def AsyncStorage_setItem_def)
  show ?thesis
    using flashcards_round_trip [of s parse stringify items i]
      quiz_round_trip [of s parse stringify items i]
      setFlashcards_others [of j i parse stringify items s]
      setQuiz_others [of j i parse stringify items s]
      flashcards_miss [of s i parse] quiz_miss [of s i parse]
      flashcards_corrupt [of s i _ parse] quiz_corrupt [of s i _ parse]
      getFlashcards_total [of parse i s] getQuiz_total [of parse i s] w
    by blast
qed

theorem cache_round_trip_witness:
  "\<not> async_rejects signed_in_web \<and>
   demo_parse (demo_stringify (JArr [])) = Some (JArr []) \<and>
   fst (getFlashcards demo_parse ''n1''
         (snd (setFlashcards demo_stringify ''n1'' (JArr []) signed_in_web))) = Inr (JArr []) \<and>
   fst (getFlashcards demo_parse ''n2''
         (snd (setFlashcards demo_stringify ''n1'' (JArr []) signed_in_web))) =
     fst (getFlashcards demo_parse ''n2'' signed_in_web) \<and>
   fst (getQuiz demo_parse ''n1''
         (snd (setFlashcards demo_stringify ''n1'' (JArr []) signed_in_web))) =
     fst (getQuiz demo_parse ''n1'' signed_in_web) \<and>
   async_data signed_in_web (KEY_FC ''n2'') = None \<and>
   fst (getFlashcards demo_parse ''n2'' signed_in_web) = Inr JNull \<and>
   async_data corrupt_cache (KEY_QZ ''n1'') = Some ''{bad'' \<and>
   demo_parse ''{bad'' = None \<and>
   fst (getQuiz demo_parse ''n1'' corrupt_cache) = Inr JNull"
proof -
  have h1: "\<not> async_rejects signed_in_web" by (simp add: signed_in_web_def)
  have h2: "demo_parse (demo_stringify (JArr [])) = Some (JArr [])" by (simp add: demo_parse_def)
  have h3: "''n2'' \<noteq> ''n1''" by simp
  have h4: "async_data signed_in_web (KEY_FC ''n2'') = None"
    by (simp add: signed_in_web_def KEY_FC_def)
  have h5: "async_data corrupt_cache (KEY_QZ ''n1'') = Some ''{bad''"
    by (simp add: corrupt_cache_def KEY_QZ_def)
  have h6: "demo_parse ''{bad'' = None" by (simp add: demo_parse_def)
  note A = cache_round_trip [of signed_in_web demo_parse demo_stringify "JArr []" "''n1''" "''n2''"]
  note B = cache_round_trip [of corrupt_cache demo_parse demo_stringify "JArr []" "''n1''" "''n1''"]
  note C = cache_round_trip [of signed_in_web demo_parse demo_stringify "JArr []" "''n2''" "''n1''"]
  have a: "fst (getFlashcards demo_parse ''n1''
         (snd (setFlashcards demo_stringify ''n1'' (JArr []) signed_in_web))) = Inr (JArr [])"
    using A [THEN conjunct1] h1 h2 by simp
  have b: "fst (getFlashcards demo_parse ''n2''
         (snd (setFlashcards demo_stringify ''n1'' (JArr []) signed_in_web))) =
     fst (getFlashcards demo_parse ''n2'' signed_in_web)"
    using A [THEN conjunct2, THEN conjunct1] h3 by simp
  have c: "fst (getQuiz demo_parse ''n1''
         (snd (setFlashcards demo_stringify ''n1'' (JArr []) signed_in_web))) =
     fst (getQuiz demo_parse ''n1'' signed_in_web)"
    using cache_round_trip [of signed_in_web demo_parse demo_stringify "JArr []" "''n1''" "''n1''",
        THEN conjunct2, THEN conjunct2, THEN conjunct1]
    by simp
  have d: "fst (getFlashcards demo_parse ''n2'' signed_in_web) = Inr JNull"
    using C [THEN conjunct2, THEN conjunct2, THEN conjunct2, THEN conjunct2, THEN conjunct1] h4
    by simp
  have e: "fst (getQuiz demo_parse ''n1'' corrupt_cache) = Inr JNull"
    using B [THEN conjunct2, THEN conjunct2, THEN conjunct2, THEN conjunct2, THEN conjunct2,
        THEN conjunct2, THEN conjunct2, THEN conjunct1] h5 h6
    by simp
  from a b c d e h1 h2 h4 h5 h6 show ?thesis by simp
qed

text \<open>
  C7 as stated fails twice. When AsyncStorage rejects the write, \<^verbatim>\<open>setFlashcards\<close>
  reports success and the following \<^verbatim>\<open>getFlashcards\<close> returns null, not the items. And
  items that JSON cannot write are not read back: an array holding \<^verbatim>\<open>undefined\<close> comes
  back as an array holding null.
\<close>

theorem cache_set_get_counterexample:
  "fst (setFlashcards demo_stringify ''n1'' (JArr []) storage_down) = Inr () \<and>
   fst (getFlashcards demo_parse ''n1''
         (snd (setFlashcards demo_stringify ''n1'' (JArr []) storage_down))) = Inr JNull \<and>
   fst (getQuiz demo_parse ''n1''
         (snd (setQuiz demo_stringify ''n1'' (JArr [JUndefined]) signed_in_web))) =
     Inr (JArr [JNull])"
  by (simp add: setFlashcards_def getFlashcards_def setQuiz_def getQuiz_def
      AsyncStorage_setItem_def AsyncStorage_getItem_def demo_parse_def
      storage_down_def signed_in_web_def)

section \<open>The event bus\<close>

lemma on_grows:
  assumes "listeners b ev = Some (arr @ ext)"
  shows "\<exists>ext'. listeners (on ev' cb b) ev = Some (arr @ ext') \<and> calls (on ev' cb b) = calls b"
proof (cases "ev' = ev")
  case True
  then have "listeners (on ev' cb b) ev = Some (arr @ (ext @ [cb]))"
    using assms by (simp add: on_def)
  then show ?thesis by (auto simp: on_def)
next
  case False
  then show ?thesis using assms by (auto simp: on_def)
qed

lemma ons_grow:
  assumes "list_all is_On ops" and "listeners b ev = Some (arr @ ext)"
  shows "\<exists>ext'. listeners (fold run_op ops b) ev = Some (arr @ ext') \<and>
           calls (fold run_op ops b) = calls b"
  using assms
proof (induction ops arbitrary: b ext)
  case Nil
  then show ?case by auto
next
  case (Cons x ops)
  then obtain ev' cb where x: "x = On ev' cb" by (cases x) auto
  from on_grows [OF Cons.prems(2), of ev' cb]
  obtain e1 where e1: "listeners (on ev' cb b) ev = Some (arr @ e1)"
    "calls (on ev' cb b) = calls b" by blast
  from Cons.IH [OF _ e1(1)] Cons.prems(1) e1(2) show ?case by (simp add: x)
qed

lemma visit_subscribing:
  assumes "\<And>l h. list_all is_On (react l h p)"
    and "listeners b ev = Some (arr @ ext)" and "k < length arr"
  shows "\<exists>ext'. listeners (visit react ev p k b) ev = Some (arr @ ext') \<and>
           calls (visit react ev p k b) = calls b @ [(arr ! k, p)]"
proof -
  let ?b1 = "b\<lparr>calls := calls b @ [(arr ! k, p)]\<rparr>"
  have v: "visit react ev p k b = fold run_op (react (calls b) (arr ! k) p) ?b1"
    using assms(2,3) by (simp add: visit_def nth_append)
  have "listeners ?b1 ev = Some (arr @ ext)" using assms(2) by simp
  from ons_grow [OF assms(1) this] show ?thesis by (simp add: v)
qed

lemma fold_subscribing:
  assumes "\<And>l h. list_all is_On (react l h p)"
    and "listeners b ev = Some arr" and "m \<le> length arr"
  shows "\<exists>ext. listeners (fold (visit react ev p) [0..<m] b) ev = Some (arr @ ext) \<and>
           calls (fold (visit react ev p) [0..<m] b) = calls b @ map (\<lambda>h. (h, p)) (take m arr)"
  using assms(3)
proof (induction m)
  case 0
  then show ?case using assms(2) by simp
next
  case (Suc m)
  then obtain ext where e: "listeners (fold (visit react ev p) [0..<m] b) ev = Some (arr @ ext)"
    "calls (fold (visit react ev p) [0..<m] b) = calls b @ map (\<lambda>h. (h, p)) (take m arr)"
    by auto
  from Suc.prems have k: "m < length arr" by simp
  from visit_subscribing [where react = react and p = p, OF assms(1) e(1) k] e(2) k
  show ?case by (auto simp: take_Suc_conv_app_nth)
qed

lemma emit_subscribing:
  assumes "\<And>l h. list_all is_On (react l h p)" and "listeners b ev = Some arr"
  shows "calls (emit react ev p b) = calls b @ map (\<lambda>h. (h, p)) arr"
  using fold_subscribing [where react = react and p = p, OF assms le_refl] assms(2) by (auto simp: emit_def)

lemma subseq_drop_Suc: "subseq (drop (Suc n) xs) (drop n xs)"
proof -
  have "suffix (drop (Suc n) xs) (drop n xs)"
    by (metis drop_Suc drop_drop suffix_drop plus_1_eq_Suc tl_drop)
  then show ?thesis by (rule suffix_imp_subseq)
qed

lemma subseq_drop_remove1: "subseq (drop n (remove1 x xs)) (drop n xs)"
proof (induction xs arbitrary: n)
  case Nil
  then show ?case by simp
next
  case (Cons y ys)
  show ?case
  proof (cases n)
    case 0
    then show ?thesis using Cons.IH [of 0] by auto
  next
    case (Suc k)
    then show ?thesis using Cons.IH [of k] subseq_drop_Suc [of k ys] by auto
  qed
qed

lemma off_shrinks:
  assumes "listeners b ev = Some cur"
  shows "\<exists>cur'. listeners (off ev' cb b) ev = Some cur' \<and>
           subseq (drop n cur') (drop n cur) \<and> calls (off ev' cb b) = calls b"
proof (cases "ev' = ev")
  case True
  then show ?thesis using assms subseq_drop_remove1 [of n cb cur] by (auto simp: off_def)
next
  case False
  then show ?thesis using assms by (auto simp: off_def split: option.splits)
qed

lemma offs_shrink:
  assumes "list_all is_Off ops" and "listeners b ev = Some cur"
  shows "\<exists>cur'. listeners (fold run_op ops b) ev = Some cur' \<and>
           subseq (drop n cur') (drop n cur) \<and> calls (fold run_op ops b) = calls b"
  using assms
proof (induction ops arbitrary: b cur)
  case Nil
  then show ?case by auto
next
  case (Cons x ops)
  then obtain ev' cb where x: "x = Off ev' cb" by (cases x) auto
  from off_shrinks [OF Cons.prems(2), of ev' cb n]
  obtain c1 where c1: "listeners (off ev' cb b) ev = Some c1"
    "subseq (drop n c1) (drop n cur)" "calls (off ev' cb b) = calls b" by blast
  from Cons.IH [OF _ c1(1)] Cons.prems(1)
  obtain c2 where c2: "listeners (fold run_op ops (off ev' cb b)) ev = Some c2"
    "subseq (drop n c2) (drop n c1)" "calls (fold run_op ops (off ev' cb b)) = calls (off ev' cb b)"
    by auto
  from c2(2) c1(2) have "subseq (drop n c2) (drop n cur)" by (rule subseq_order.trans)
  with c2 c1(3) show ?case by (simp add: x)
qed

lemma visit_unsubscribing:
  assumes "\<And>l h. list_all is_Off (react l h p)"
    and "listeners b ev = Some cur"
    and "calls b = c0 @ map (\<lambda>h. (h, p)) hs" and "subseq (hs @ drop k cur) arr"
  shows "\<exists>cur' hs'. listeners (visit react ev p k b) ev = Some cur' \<and>
           calls (visit react ev p k b) = c0 @ map (\<lambda>h. (h, p)) hs' \<and>
           subseq (hs' @ drop (Suc k) cur') arr"
proof (cases "k < length cur")
  case False
  then have "visit react ev p k b = b" using assms(2) by (simp add: visit_def)
  moreover have "drop (Suc k) cur = []" "drop k cur = []" using False by simp_all
  ultimately show ?thesis using assms(2,3,4) by auto
next
  case True
  let ?b1 = "b\<lparr>calls := calls b @ [(cur ! k, p)]\<rparr>"
  have v: "visit react ev p k b = fold run_op (react (calls b) (cur ! k) p) ?b1"
    using assms(2) True by (simp add: visit_def)
  have "listeners ?b1 ev = Some cur" using assms(2) by simp
  from offs_shrink [OF assms(1) this, of _ _ "Suc k"]
  obtain cur' where c: "listeners (visit react ev p k b) ev = Some cur'"
    "subseq (drop (Suc k) cur') (drop (Suc k) cur)"
    "calls (visit react ev p k b) = calls b @ [(cur ! k, p)]"
    unfolding v by auto
  have d: "drop k cur = cur ! k # drop (Suc k) cur"
    using True by (simp add: Cons_nth_drop_Suc)
  have "subseq ((hs @ [cur ! k]) @ drop (Suc k) cur') ((hs @ [cur ! k]) @ drop (Suc k) cur)"
    using c(2) by (simp only: subseq_append')
  also have "subseq \<dots> arr" using assms(4) d by simp
  finally have "subseq ((hs @ [cur ! k]) @ drop (Suc k) cur') arr" .
  moreover have "calls (visit react ev p k b) = c0 @ map (\<lambda>h. (h, p)) (hs @ [cur ! k])"
    using c(3) assms(3) by simp
  ultimately show ?thesis using c(1) by blast
qed

lemma fold_unsubscribing:
  assumes "\<And>l h. list_all is_Off (react l h p)" and "listeners b ev = Some arr"
  shows "\<exists>cur hs. listeners (fold (visit react ev p) [0..<m] b) ev = Some cur \<and>
           calls (fold (visit react ev p) [0..<m] b) = calls b @ map (\<lambda>h. (h, p)) hs \<and>
           subseq (hs @ drop m cur) arr"
proof (induction m)
  case 0
  have "calls b = calls b @ map (\<lambda>h. (h, p)) []" "subseq ([] @ drop 0 arr) arr" by simp_all
  with assms(2) show ?case by (metis fold_Nil id_apply upt_0)
next
  case (Suc m)
  then obtain cur hs where i: "listeners (fold (visit react ev p) [0..<m] b) ev = Some cur"
    "calls (fold (visit react ev p) [0..<m] b) = calls b @ map (\<lambda>h. (h, p)) hs"
    "subseq (hs @ drop m cur) arr" by blast
  from visit_unsubscribing [where react = react and p = p, OF assms(1) i] show ?case by simp
qed

lemma emit_unsubscribing:
  assumes "\<And>l h. list_all is_Off (react l h p)" and "listeners b ev = Some arr"
  shows "\<exists>hs. calls (emit react ev p b) = calls b @ map (\<lambda>h. (h, p)) hs \<and> subseq hs arr"
proof -
  from fold_unsubscribing [where react = react and p = p and m = "length arr", OF assms]
  obtain cur hs where i: "calls (fold (visit react ev p) [0..<length arr] b) = calls b @ map (\<lambda>h. (h, p)) hs"
    "subseq (hs @ drop (length arr) cur) arr" by blast
  have "subseq hs (hs @ drop (length arr) cur)" by (simp add: prefix_imp_subseq)
  then have "subseq hs arr" using i(2) by (rule subseq_order.trans)
  with i(1) assms(2) show ?thesis by (auto simp: emit_def)
qed

text \<open>
  C6, as amended. \<^verbatim>\<open>emit\<close> on an event without a listener array does nothing. When the
  callbacks do no unsubscribing while they are called (they may subscribe), every
  callback registered at the moment of \<^verbatim>\<open>emit\<close> is called exactly once, in registration
  order, with the payload, and nothing else is called. When the callbacks only
  unsubscribe while they are called, the callbacks called are a subsequence of those
  registered at the moment of \<^verbatim>\<open>emit\<close>, in registration order, each with the payload:
  no registration is served twice.
\<close>

theorem emit_delivery:
  "(listeners b ev = None \<longrightarrow> emit react ev p b = b) \<and>
   (\<forall>arr. listeners b ev = Some arr \<and> (\<forall>l h. list_all is_On (react l h p)) \<longrightarrow>
      calls (emit react ev p b) = calls b @ map (\<lambda>h. (h, p)) arr) \<and>
   (\<forall>arr. listeners b ev = Some arr \<and> (\<forall>l h. list_all is_Off (react l h p)) \<longrightarrow>
      (\<exists>hs. calls (emit react ev p b) = calls b @ map (\<lambda>h. (h, p)) hs \<and> subseq hs arr))"
  using emit_subscribing [of react p b ev] emit_unsubscribing [of react p b ev]
  by (auto simp: emit_def)

theorem emit_delivery_witness:
  "listeners two_listeners NotesChanged = Some [1, 2] \<and>
   (\<forall>l h. list_all is_On (subscribing l h abc)) \<and>
   calls (emit subscribing NotesChanged abc two_listeners) = [(1, abc), (2, abc)] \<and>
   (\<forall>l h. list_all is_Off (self_removing l h abc)) \<and>
   (\<exists>hs. calls (emit self_removing NotesChanged abc two_listeners) = map (\<lambda>h. (h, abc)) hs \<and>
      subseq hs [1, 2])"
proof -
  have h1: "listeners two_listeners NotesChanged = Some [1, 2]"
    by (simp add: two_listeners_def)
  have h2: "\<forall>l h. list_all is_On (subscribing l h abc)"
    by (simp add: subscribing_def)
  have h3: "\<forall>l h. list_all is_Off (self_removing l h abc)"
    by (simp add: self_removing_def)
  have c: "calls two_listeners = []" by (simp add: two_listeners_def)
  from emit_delivery [of two_listeners NotesChanged subscribing abc] h1 h2
  have a: "calls (emit subscribing NotesChanged abc two_listeners) =
      calls two_listeners @ map (\<lambda>h. (h, abc)) [1, 2]" by blast
  from emit_delivery [of two_listeners NotesChanged self_removing abc] h1 h3
  have b: "\<exists>hs. calls (emit self_removing NotesChanged abc two_listeners) =
      calls two_listeners @ map (\<lambda>h. (h, abc)) hs \<and> subseq hs [1, 2]" by blast
  from a b h1 h2 h3 show ?thesis by (simp add: c)
qed

text \<open>
  C6 as stated fails: with two callbacks registered, the first of which unsubscribes
  itself when called, \<^verbatim>\<open>emit\<close> calls the first and never the second.
\<close>

theorem emit_unsubscribe_skips_counterexample:
  "listeners two_listeners NotesChanged = Some [1, 2] \<and>
   calls (emit self_removing NotesChanged abc two_listeners) = [(1, abc)]"
  by (simp add: emit_def visit_def off_def self_removing_def two_listeners_def
      upt_rec [of 0] upt_rec [of 1] upt_rec [of 2] numeral_2_eq_2)

section \<open>Deleting a note\<close>

lemma tools_keys:
  "KEY_FC i \<noteq> SUMMARY_KEY j" "KEY_FC i \<noteq> INDEXED_KEY j"
  "KEY_QZ i \<noteq> SUMMARY_KEY j" "KEY_QZ i \<noteq> INDEXED_KEY j"
  by (simp_all add: KEY_FC_def KEY_QZ_def SUMMARY_KEY_def INDEXED_KEY_def)

lemma after_delete_store:
  assumes "k \<noteq> SUMMARY_KEY nid" "k \<noteq> INDEXED_KEY nid"
  shows "async_data (auth (after_delete react nid n0 st)) k = async_data (auth st) k"
  using assms
  by (simp add: after_delete_def Let_def delete_error_def clearIndexedFlag_def
      loadSummaryFromStorage_def AsyncStorage_removeItem_def AsyncStorage_getItem_def
      split: option.splits)

lemma deleteNote_store:
  assumes "k \<noteq> SUMMARY_KEY nid" "k \<noteq> INDEXED_KEY nid"
  shows "async_data (auth (deleteNote react net nid st)) k = async_data (auth st) k"
proof (cases "getTokens (auth st)")
  case (Pair x w1)
  have w: "async_data w1 = async_data (auth st)"
    using getTokens_stores [of "auth st"] Pair by simp
  show ?thesis
  proof (cases x)
    case (Inl e)
    then show ?thesis using Pair w
      by (simp add: deleteNote_def getAccessToken_def delete_error_def)
  next
    case (Inr ar)
    obtain a r where ar: "ar = (a, r)" by (cases ar)
    have g: "getAccessToken (auth st) = (Inr a, w1)"
      using Pair Inr ar by (simp add: getAccessToken_def)
    show ?thesis
      using w after_delete_store [OF assms, of react "noteList st"]
      by (simp add: deleteNote_def g fetch_def delete_error_def
          split: option.splits fetch_result.splits)
  qed
qed

lemma deleteNote_never_clears_tools:
  "async_data (auth (deleteNote react net nid st)) (KEY_FC nid) = async_data (auth st) (KEY_FC nid) \<and>
   async_data (auth (deleteNote react net nid st)) (KEY_QZ nid) = async_data (auth st) (KEY_QZ nid)"
  using deleteNote_store [of "KEY_FC nid" nid react net st]
    deleteNote_store [of "KEY_QZ nid" nid react net st]
  by (simp add: tools_keys)

text \<open>
  C8 on the code: a successful deletion of note \<^verbatim>\<open>n1\<close> removes it from the list,
  raises no alert and publishes the event to the subscriber, and the flashcards and
  quiz entries of \<^verbatim>\<open>n1\<close> are still in AsyncStorage afterwards, where
  \<^verbatim>\<open>clearNoteTools\<close> would have removed them.
\<close>

theorem deleteNote_keeps_tools_cache:
  "noteList (deleteNote quiet accepting ''n1'' notes_demo) = [] \<and>
   alerts (deleteNote quiet accepting ''n1'' notes_demo) = [] \<and>
   calls (bus (deleteNote quiet accepting ''n1'' notes_demo)) = [(7, \<lparr>noteId = None\<rparr>)] \<and>
   async_data (auth (deleteNote quiet accepting ''n1'' notes_demo)) (KEY_FC ''n1'') = Some ''[1]'' \<and>
   async_data (auth (deleteNote quiet accepting ''n1'' notes_demo)) (KEY_QZ ''n1'') = Some ''[2]'' \<and>
   async_data (snd (clearNoteTools ''n1'' (auth notes_demo))) (KEY_FC ''n1'') = None \<and>
   async_data (snd (clearNoteTools ''n1'' (auth notes_demo))) (KEY_QZ ''n1'') = None"
  by (simp add: deleteNote_def after_delete_def delete_error_def clearIndexedFlag_def
      loadSummaryFromStorage_def getAccessToken_def getTokens_def load_access_def load_refresh_def
      fetch_def delete_request_def accepting_def ok_def parsed_def empty_json_def
      AsyncStorage_removeItem_def AsyncStorage_getItem_def AsyncStorage_multiRemove_def
      clearNoteTools_def emit_def visit_def quiet_def
      SUMMARY_KEY_def INDEXED_KEY_def KEY_FC_def KEY_QZ_def notes_demo_def signed_in_web_def
      Let_def)

end
